theory Spec2Isabelle
  imports
    Main
    "HOL-Library.Char_ord"
    "HOL-Library.List_Lexorder"
    "HOL-Library.Product_Lexorder"
    "HOL-Library.Sublist"
    "HOL-Library.AList"
begin

section \<open>The specification mapping\<close>

text \<open>
  The spec handed to \<^verbatim>\<open>pgbedrock/privileges.py\<close> is a Python dict from role names to a
  role configuration, or to \<^verbatim>\<open>None\<close> for a role without attributes. It is modelled as
  the list of its items, in iteration order. A configuration is a dict with optional
  keys; the record holds, for each key the module reads, the value the module's
  \<^verbatim>\<open>config.get(key, default)\<close> sees: the default when the key is absent.
  \<^verbatim>\<open>is_superuser\<close> and \<^verbatim>\<open>has_personal_schema\<close> are the values after
  \<^verbatim>\<open>common.parse_bool\<close>. \<^verbatim>\<open>privileges\<close> maps an object kind to a dict from access
  level to the list of desired items; these inner dicts are association lists, so that a
  missing \<^verbatim>\<open>'read'\<close> key differs from a present, empty one.
\<close>

type_synonym obj_privs = "(string \<times> string list) list"

record role_config =
  is_superuser :: bool
  has_personal_schema :: bool
  member_of :: "string list"
  owns :: "(string \<times> string list) list"
  privileges :: "(string \<times> obj_privs) list"

type_synonym spec = "(string \<times> role_config option) list"

text \<open>
  A Python \<^verbatim>\<open>for\<close> loop whose body may fail to return: the body maps the loop state to
  the next state, \<open>None\<close> is a body that never returns.
\<close>

primrec for_each :: "('a \<Rightarrow> 's \<Rightarrow> 's option) \<Rightarrow> 'a list \<Rightarrow> 's \<Rightarrow> 's option" where
  "for_each body [] s = Some s"
| "for_each body (x # xs) s = Option.bind (body x s) (for_each body xs)"

lemma for_each_mono [partial_function_mono]:
  assumes "\<And>x s. mono_option (\<lambda>f. body f x s)"
  shows "mono_option (\<lambda>f. for_each (body f) xs s)"
  using assms
proof (induction xs arbitrary: s)
  case Nil
  show ?case by (simp add: option.const_mono)
next
  case (Cons x xs)
  show ?case
    by (simp, rule bind_mono) (rule Cons.prems, rule Cons.IH, rule Cons.prems)
qed

subsection \<open>Role membership\<close>

text \<open>
  \<^verbatim>\<open>config and group in config.get('member_of', ())\<close>
\<close>

definition in_member_of :: "string \<Rightarrow> role_config option \<Rightarrow> bool" where
  "in_member_of grp config =
     (case config of None \<Rightarrow> False | Some c \<Rightarrow> grp \<in> set (member_of c))"

text \<open>
  \<^verbatim>\<open>get_members(group, spec)\<close> calls itself for every role that lists the group in its
  \<^verbatim>\<open>member_of\<close>, with no record of the roles already visited. The recursion need not
  end, so the model is a partial function: \<open>None\<close> stands for a call that never returns
  a set (CPython gives up with a \<^verbatim>\<open>RecursionError\<close> once its stack limit is reached).
\<close>

partial_function (option) get_members :: "string \<Rightarrow> spec \<Rightarrow> string set option" where
  "get_members grp spec =
     for_each (\<lambda>(role, config) members.
         if in_member_of grp config
         then Option.bind (get_members role spec)
                (\<lambda>sub_members. Some (insert role members \<union> sub_members))
         else Some members) spec {}"

declare get_members.simps [code]





datatype error = Fail string | KeyError

primrec for_each_raise :: "('a \<Rightarrow> 's \<Rightarrow> error + 's) \<Rightarrow> 'a list \<Rightarrow> 's \<Rightarrow> error + 's" where
  "for_each_raise body [] s = Inr s"
| "for_each_raise body (x # xs) s =
     (case body x s of Inl e \<Rightarrow> Inl e | Inr s' \<Rightarrow> for_each_raise body xs s')"

definition determine_role_members :: "spec \<Rightarrow> (string \<times> string set) list option" where
  "determine_role_members spec =
     for_each (\<lambda>(role, config) members_of_role.
        Option.bind (get_members role spec)
          (\<lambda>members. Some (AList.update role members members_of_role))) spec []"

definition determine_personal_schemas :: "spec \<Rightarrow> string set" where
  "determine_personal_schemas spec =
     fold (\<lambda>(role, config) personal_schemas.
        if (case config of None \<Rightarrow> False | Some c \<Rightarrow> has_personal_schema c)
        then insert role personal_schemas else personal_schemas) spec {}"

definition owned_schemas :: "role_config \<Rightarrow> string list" where
  "owned_schemas c = (case map_of (owns c) ''schemas'' of None \<Rightarrow> [] | Some l \<Rightarrow> l)"

definition determine_schema_owners :: "spec \<Rightarrow> (string \<times> string) list" where
  "determine_schema_owners spec =
     fold (\<lambda>(role, config) schema_owners.
        case config of
          None \<Rightarrow> schema_owners
        | Some c \<Rightarrow>
            (let schema_owners =
                   fold (\<lambda>schema schema_owners. AList.update schema role schema_owners)
                     (owned_schemas c) schema_owners
             in if has_personal_schema c then AList.update role role schema_owners
                else schema_owners)) spec []"

definition determine_superusers :: "spec \<Rightarrow> string set" where
  "determine_superusers spec =
     fold (\<lambda>(role, config) superusers.
        case config of
          None \<Rightarrow> superusers
        | Some c \<Rightarrow> if is_superuser c then insert role superusers else superusers) spec {}"

definition writable_schemas :: "string set \<Rightarrow> role_config option \<Rightarrow> string set" where
  "writable_schemas personal_schemas config =
     (let writable_schemas =
        (case config of
           None \<Rightarrow> {}
         | Some c \<Rightarrow>
             (case map_of (privileges c) ''schemas'' of
                None \<Rightarrow> {}
              | Some d \<Rightarrow> (case map_of d ''write'' of None \<Rightarrow> {} | Some l \<Rightarrow> set l)))
      in if ''personal_schemas'' \<in> writable_schemas
         then (writable_schemas - {''personal_schemas''}) \<union> personal_schemas
         else writable_schemas)"

definition add_schema_writers ::
  "string \<Rightarrow> (string \<times> string set) list \<Rightarrow> string \<Rightarrow> (string \<times> string set) list
     \<Rightarrow> error + (string \<times> string set) list" where
  "add_schema_writers role members_of_role schema writers =
     (case map_of writers schema of
        None \<Rightarrow> Inl KeyError
      | Some vals \<Rightarrow>
          (case map_of members_of_role role of
             None \<Rightarrow> Inl KeyError
           | Some role_members \<Rightarrow>
               Inr (AList.update schema (insert role vals \<union> role_members) writers)))"

definition determine_schema_writers :: "spec \<Rightarrow> (error + (string \<times> string set) list) option" where
  "determine_schema_writers spec =
     map_option (\<lambda>members_of_role.
        let personal_schemas = determine_personal_schemas spec;
            schema_owners = determine_schema_owners spec;
            writers = map (\<lambda>(schema, owner). (schema, {owner})) schema_owners
        in case for_each_raise (\<lambda>(role, config) writers.
                  for_each_raise (add_schema_writers role members_of_role)
                    (sorted_list_of_set (writable_schemas personal_schemas config)) writers)
                spec writers of
             Inl e \<Rightarrow> Inl e
           | Inr writers \<Rightarrow>
               (let superusers = determine_superusers spec
                in Inr (map (\<lambda>(schema, vals). (schema, vals \<union> superusers)) writers)))
       (determine_role_members spec)"

definition spec_writers :: spec where
  "spec_writers =
     [(''admin'', Some \<lparr>is_superuser = True, has_personal_schema = False, member_of = [],
                       owns = [], privileges = []\<rparr>),
      (''etl'', Some \<lparr>is_superuser = False, has_personal_schema = False, member_of = [],
                     owns = [(''schemas'', [''finance''])], privileges = []\<rparr>),
      (''ann'', Some \<lparr>is_superuser = False, has_personal_schema = True, member_of = [''writers''],
                     owns = [], privileges = []\<rparr>),
      (''writers'', Some \<lparr>is_superuser = False, has_personal_schema = False, member_of = [],
                     owns = [],
                     privileges = [(''schemas'', [(''write'', [''finance'', ''personal_schemas''])])]\<rparr>)]"


definition has_known_owner :: "spec \<Rightarrow> string \<Rightarrow> bool" where
  "has_known_owner spec schema =
     list_ex (\<lambda>(role, config).
        case config of
          None \<Rightarrow> False
        | Some c \<Rightarrow> schema \<in> set (owned_schemas c) \<or> (has_personal_schema c \<and> schema = role)) spec"

definition named_writable_schemas :: "spec \<Rightarrow> string set" where
  "named_writable_schemas spec =
     (\<Union>(role, config) \<in> set spec. writable_schemas (determine_personal_schemas spec) config)"

definition spec_ghost :: spec where
  "spec_ghost =
     [(''etl'', Some \<lparr>is_superuser = False, has_personal_schema = False, member_of = [],
                     owns = [(''schemas'', [''finance''])],
                     privileges = [(''schemas'', [(''write'', [''finance'', ''ghost''])])]\<rparr>)]"

section \<open>Code of the package that is not among the sources\<close>

text \<open>
  \<^verbatim>\<open>privileges.py\<close> imports \<^verbatim>\<open>DatabaseContext\<close>, \<^verbatim>\<open>DBObject\<close> and \<^verbatim>\<open>PRIVILEGE_MAP\<close> from
  \<^verbatim>\<open>pgbedrock.context\<close> and calls \<^verbatim>\<open>check_name\<close>, \<^verbatim>\<open>ensure_quoted_identifier\<close>,
  \<^verbatim>\<open>parse_bool\<close> and \<^verbatim>\<open>fail\<close> of \<^verbatim>\<open>pgbedrock.common\<close>. Neither module is among the
  sources, so what the analysis uses of them is a parameter of the model:
  \<^item> the class \<^verbatim>\<open>DBObject\<close> is a type variable \<open>'dbo\<close>, with its constructor and its
    attribute \<^verbatim>\<open>qualified_name\<close>; Python's equality of two objects is equality in \<open>'dbo\<close>;
  \<^item> \<^verbatim>\<open>PRIVILEGE_MAP\<close> is the list of the items of a dict from object kind to a dict from
    access level to privilege names;
  \<^item> \<^verbatim>\<open>check_name\<close> returns a name or fails;
  \<^item> \<^verbatim>\<open>common.fail(msg)\<close> ends the run with the message: the error \<open>Fail msg\<close>.
  A database context gives, for a role, an object kind and an access level, the elements
  of the current default and non-default privileges, and the attributes of every object
  by kind and schema. Every attribute dict of the context has the key \<^verbatim>\<open>'owner'\<close>.
\<close>

record object_attributes =
  owner :: string

type_synonym 'dbo object_attrs = "(string \<times> (string \<times> ('dbo \<times> object_attributes) list) list) list"

record 'dbo modules =
  PRIVILEGE_MAP :: "(string \<times> (string \<times> string list) list) list"
  DBObject :: "string \<Rightarrow> string option \<Rightarrow> 'dbo"
  qualified_name :: "'dbo \<Rightarrow> string"
  check_name :: "string \<Rightarrow> error + string"
  ensure_quoted_identifier :: "string \<Rightarrow> string"

record 'dbo DatabaseContext =
  db_is_superuser :: "string \<Rightarrow> bool"
  get_role_current_defaults :: "string \<Rightarrow> string \<Rightarrow> string \<Rightarrow> (string \<times> string \<times> string) list"
  get_role_current_nondefaults :: "string \<Rightarrow> string \<Rightarrow> string \<Rightarrow> ('dbo \<times> string) list"
  get_all_object_attributes :: "'dbo object_attrs"

section \<open>Messages and statements\<close>

text \<open>
  A statement of the output is kept as its template and the arguments of the
  \<^verbatim>\<open>format\<close> call that fills it; \<open>render\<close> is the text that \<^verbatim>\<open>format\<close> returns.
  \<open>CHR 0x22\<close> is the double quote, \<open>CHR 0x27\<close> the single quote, \<open>CHR 0x0A\<close> the newline.
\<close>

datatype statement =
    SKIP_SUPERUSER_PRIVILEGE_CONFIGURATION_MSG string
  | Q_GRANT_NONDEFAULT string string string string
  | Q_REVOKE_NONDEFAULT string string string string
  | Q_GRANT_DEFAULT string string string string string
  | Q_REVOKE_DEFAULT string string string string string

definition default_template :: "string \<Rightarrow> string \<Rightarrow> string \<Rightarrow> string \<Rightarrow> string \<Rightarrow> string \<Rightarrow> string \<Rightarrow> string" where
  "default_template verb prep a b c d e =
     [CHR 0x0A] @ ''    SET ROLE '' @ [CHR 0x22] @ a @ [CHR 0x22] @ '';'' @ [CHR 0x0A] @
     ''    ALTER DEFAULT PRIVILEGES IN SCHEMA '' @ b @ '' '' @ verb @ '' '' @ c @ '' ON '' @ d @
     '' '' @ prep @ '' '' @ [CHR 0x22] @ e @ [CHR 0x22] @ '';'' @ [CHR 0x0A] @
     ''    RESET ROLE;'' @ [CHR 0x0A] @ ''    ''"

fun render :: "statement \<Rightarrow> string" where
  "render (SKIP_SUPERUSER_PRIVILEGE_CONFIGURATION_MSG a) =
     ''-- Skipping privilege configuration for superuser '' @ [CHR 0x22] @ a @ [CHR 0x22]"
| "render (Q_GRANT_NONDEFAULT a b c d) =
     ''GRANT '' @ a @ '' ON '' @ b @ '' '' @ c @ '' TO '' @ [CHR 0x22] @ d @ [CHR 0x22] @ '';''"
| "render (Q_REVOKE_NONDEFAULT a b c d) =
     ''REVOKE '' @ a @ '' ON '' @ b @ '' '' @ c @ '' FROM '' @ [CHR 0x22] @ d @ [CHR 0x22] @ '';''"
| "render (Q_GRANT_DEFAULT a b c d e) = default_template ''GRANT'' ''TO'' a b c d e"
| "render (Q_REVOKE_DEFAULT a b c d e) = default_template ''REVOKE'' ''FROM'' a b c d e"

definition PERSONAL_SCHEMAS_ERROR_MSG :: "string \<Rightarrow> string \<Rightarrow> string \<Rightarrow> string" where
  "PERSONAL_SCHEMAS_ERROR_MSG a b c =
     ''Unable to interpret reserved keyword '' @ [CHR 0x27] @ ''personal_schemas'' @ [CHR 0x27] @
     '' for rolename '' @ [CHR 0x27] @ a @ [CHR 0x27] @
     '', object_kind '' @ [CHR 0x27] @ b @ [CHR 0x27] @
     '', access '' @ [CHR 0x27] @ c @ [CHR 0x27]"

definition OBJECT_DOES_NOT_EXIST_ERROR_MSG :: "string \<Rightarrow> string \<Rightarrow> string \<Rightarrow> string" where
  "OBJECT_DOES_NOT_EXIST_ERROR_MSG a b c =
     a @ '' '' @ [CHR 0x27] @ b @ [CHR 0x27] @ '' requested for role '' @
     [CHR 0x22] @ c @ [CHR 0x22] @ '' does not exist''"

definition OBJECTS_WITH_DEFAULTS :: "string list" where
  "OBJECTS_WITH_DEFAULTS = [''functions'', ''tables'', ''sequences'', ''types'']"

text \<open>\<^verbatim>\<open>str.upper\<close>, on the ASCII letters.\<close>

definition upper_char :: "char \<Rightarrow> char" where
  "upper_char c =
     (if CHR ''a'' \<le> c \<and> c \<le> CHR ''z'' then char_of (of_char c - (32::nat)) else c)"

definition upper :: "string \<Rightarrow> string" where
  "upper s = map upper_char s"

text \<open>\<^verbatim>\<open>d.get(k, default)\<close> and \<^verbatim>\<open>d[k]\<close> on the items of a dict.\<close>

definition dict_get :: "('k \<times> 'v) list \<Rightarrow> 'k \<Rightarrow> 'v \<Rightarrow> 'v" where
  "dict_get d k dflt = (case map_of d k of None \<Rightarrow> dflt | Some v \<Rightarrow> v)"

definition dict_item :: "('k \<times> 'v) list \<Rightarrow> 'k \<Rightarrow> error + 'v" where
  "dict_item d k = (case map_of d k of None \<Rightarrow> Inl KeyError | Some v \<Rightarrow> Inr v)"

section \<open>The privilege analyzer\<close>

text \<open>
  One \<^verbatim>\<open>PrivilegeAnalyzer\<close> object: its attributes, with \<^verbatim>\<open>desired_nondefaults\<close> and
  \<^verbatim>\<open>desired_defaults\<close> empty until \<^verbatim>\<open>identify_desired_objects\<close> assigns them. Every
  method takes the object and returns it updated.
\<close>

record 'dbo PrivilegeAnalyzer =
  sql_to_run :: "statement list"
  rolename :: string
  access :: string
  object_kind :: string
  desired_items :: "string list"
  schema_writers :: "(string \<times> string set) list"
  personal_schemas :: "string set"
  default_acl_possible :: bool
  current_defaults :: "(string \<times> string \<times> string) set"
  current_nondefaults :: "(string \<times> string) set"
  all_object_attrs :: "'dbo object_attrs"
  desired_nondefaults :: "(string \<times> string) set"
  desired_defaults :: "(string \<times> string \<times> string) set"

text \<open>\<^verbatim>\<open>PrivilegeAnalyzer.__init__\<close>\<close>

definition new_PrivilegeAnalyzer ::
  "'dbo modules \<Rightarrow> string \<Rightarrow> string \<Rightarrow> string \<Rightarrow> string list \<Rightarrow> (string \<times> string set) list
     \<Rightarrow> string set \<Rightarrow> 'dbo DatabaseContext \<Rightarrow> error + 'dbo PrivilegeAnalyzer" where
  "new_PrivilegeAnalyzer env rolename' access' object_kind' desired_items' schema_writers'
       personal_schemas' dbcontext =
     (case check_name env rolename' of
        Inl e \<Rightarrow> Inl e
      | Inr checked \<Rightarrow>
          (let current_nondefault_objects =
                 get_role_current_nondefaults dbcontext rolename' object_kind' access'
           in Inr \<lparr>sql_to_run = [],
                   rolename = checked,
                   access = access',
                   object_kind = object_kind',
                   desired_items = desired_items',
                   schema_writers = schema_writers',
                   personal_schemas = personal_schemas',
                   default_acl_possible = (object_kind' \<in> set OBJECTS_WITH_DEFAULTS),
                   current_defaults =
                     set (get_role_current_defaults dbcontext rolename' object_kind' access'),
                   current_nondefaults =
                     (if current_nondefault_objects \<noteq> []
                      then set (map (\<lambda>(dbo, priv). (qualified_name env dbo, priv))
                                  current_nondefault_objects)
                      else {}),
                   all_object_attrs = get_all_object_attributes dbcontext,
                   desired_nondefaults = {},
                   desired_defaults = {}\<rparr>))"

definition grant_default ::
  "'dbo PrivilegeAnalyzer \<Rightarrow> string \<Rightarrow> string \<Rightarrow> string \<Rightarrow> 'dbo PrivilegeAnalyzer" where
  "grant_default self grantor schema privilege =
     self\<lparr>sql_to_run := sql_to_run self @
       [Q_GRANT_DEFAULT grantor schema privilege (upper (object_kind self)) (rolename self)]\<rparr>"

definition revoke_default ::
  "'dbo PrivilegeAnalyzer \<Rightarrow> string \<Rightarrow> string \<Rightarrow> string \<Rightarrow> 'dbo PrivilegeAnalyzer" where
  "revoke_default self grantor schema privilege =
     self\<lparr>sql_to_run := sql_to_run self @
       [Q_REVOKE_DEFAULT grantor schema privilege (upper (object_kind self)) (rolename self)]\<rparr>"

definition grant_nondefault ::
  "'dbo PrivilegeAnalyzer \<Rightarrow> string \<Rightarrow> string \<Rightarrow> 'dbo PrivilegeAnalyzer" where
  "grant_nondefault self objname privilege =
     (let obj_kind_singular = butlast (upper (object_kind self))
      in self\<lparr>sql_to_run := sql_to_run self @
           [Q_GRANT_NONDEFAULT privilege obj_kind_singular objname (rolename self)]\<rparr>)"

definition revoke_nondefault ::
  "'dbo PrivilegeAnalyzer \<Rightarrow> string \<Rightarrow> string \<Rightarrow> 'dbo PrivilegeAnalyzer" where
  "revoke_nondefault self objname privilege =
     (let obj_kind_singular = butlast (upper (object_kind self))
      in self\<lparr>sql_to_run := sql_to_run self @
           [Q_REVOKE_NONDEFAULT privilege obj_kind_singular objname (rolename self)]\<rparr>)"

text \<open>
  \<^verbatim>\<open>sorted(s)\<close> of a set of tuples of strings is \<open>sorted_list_of_set s\<close>: tuples are
  compared component by component and strings character by character.
\<close>

definition analyze_defaults :: "'dbo PrivilegeAnalyzer \<Rightarrow> 'dbo PrivilegeAnalyzer" where
  "analyze_defaults self =
     (let defaults_to_grant = desired_defaults self - current_defaults self;
          self = fold (\<lambda>(grantor, schema, pg_priv_kind) self.
                    grant_default self grantor schema pg_priv_kind)
                  (sorted_list_of_set defaults_to_grant) self;
          defaults_to_revoke = current_defaults self - desired_defaults self
      in fold (\<lambda>(grantor, schema, pg_priv_kind) self.
             revoke_default self grantor schema pg_priv_kind)
           (sorted_list_of_set defaults_to_revoke) self)"

definition analyze_nondefaults :: "'dbo PrivilegeAnalyzer \<Rightarrow> 'dbo PrivilegeAnalyzer" where
  "analyze_nondefaults self =
     (let nondefaults_to_grant = desired_nondefaults self - current_nondefaults self;
          self = (if nondefaults_to_grant \<noteq> {}
                  then fold (\<lambda>(objname, pg_priv_kind) self.
                          grant_nondefault self objname pg_priv_kind)
                        (sorted_list_of_set nondefaults_to_grant) self
                  else self);
          nondefaults_to_revoke = current_nondefaults self - desired_nondefaults self
      in if nondefaults_to_revoke \<noteq> {}
         then fold (\<lambda>(objname, pg_priv_kind) self.
                 revoke_nondefault self objname pg_priv_kind)
               (sorted_list_of_set nondefaults_to_revoke) self
         else self)"

text \<open>\<^verbatim>\<open>PRIVILEGE_MAP[self.object_kind][self.access]\<close>\<close>

definition privilege_types :: "'dbo modules \<Rightarrow> 'dbo PrivilegeAnalyzer \<Rightarrow> error + string list" where
  "privilege_types env self =
     (case dict_item (PRIVILEGE_MAP env) (object_kind self) of
        Inl e \<Rightarrow> Inl e
      | Inr by_access \<Rightarrow> dict_item by_access (access self))"

text \<open>
  The loops over the set \<^verbatim>\<open>writers\<close> and over the privilege names add one triple for each
  writer other than the role and each privilege name; the privilege names are looked up
  inside the loop over the writers, so only when there is such a writer.
\<close>

definition determine_desired_defaults ::
  "'dbo modules \<Rightarrow> 'dbo PrivilegeAnalyzer \<Rightarrow> string list \<Rightarrow> error + 'dbo PrivilegeAnalyzer" where
  "determine_desired_defaults env self schemas =
     for_each_raise (\<lambda>schema self.
         case dict_item (schema_writers self) schema of
           Inl e \<Rightarrow> Inl e
         | Inr writers \<Rightarrow>
             if writers - {rolename self} = {} then Inr self
             else (case privilege_types env self of
                     Inl e \<Rightarrow> Inl e
                   | Inr pg_priv_kinds \<Rightarrow>
                       Inr (self\<lparr>desired_defaults := desired_defaults self \<union>
                              (\<lambda>(writer, pg_priv_kind). (writer, schema, pg_priv_kind)) `
                                ((writers - {rolename self}) \<times> set pg_priv_kinds)\<rparr>)))
       schemas (self\<lparr>desired_defaults := {}\<rparr>)"

definition get_object_owner ::
  "'dbo modules \<Rightarrow> 'dbo PrivilegeAnalyzer \<Rightarrow> string \<Rightarrow> string option \<Rightarrow> error + string" where
  "get_object_owner env self item objkind' =
     (let objkind = (case objkind' of
                       None \<Rightarrow> object_kind self
                     | Some k \<Rightarrow> if k = [] then object_kind self else k);
          schema = takeWhile (\<lambda>c. c \<noteq> CHR ''.'') item;
          objname = (if CHR ''.'' \<in> set item
                     then Some (tl (dropWhile (\<lambda>c. c \<noteq> CHR ''.'') item))
                     else None);
          dbo = DBObject env schema objname;
          object_owners = dict_get (dict_get (all_object_attrs self) objkind []) schema []
      in case map_of object_owners dbo of
           Some attr \<Rightarrow>
             if owner attr \<noteq> [] then Inr (owner attr)
             else Inl (Fail (OBJECT_DOES_NOT_EXIST_ERROR_MSG (butlast objkind) item (rolename self)))
         | None \<Rightarrow>
             Inl (Fail (OBJECT_DOES_NOT_EXIST_ERROR_MSG (butlast objkind) item (rolename self))))"

definition get_schema_objects :: "'dbo modules \<Rightarrow> 'dbo PrivilegeAnalyzer \<Rightarrow> string \<Rightarrow> string set" where
  "get_schema_objects env self schema =
     (let object_owners = dict_get (dict_get (all_object_attrs self) (object_kind self) []) schema []
      in set (map (\<lambda>(dbo, attr). qualified_name env dbo)
                (filter (\<lambda>(dbo, attr). owner attr \<noteq> rolename self) object_owners)))"

definition get_schema_owner :: "'dbo modules \<Rightarrow> 'dbo PrivilegeAnalyzer \<Rightarrow> string \<Rightarrow> error + string" where
  "get_schema_owner env self schema = get_object_owner env self schema (Some ''schemas'')"

text \<open>
  The body of the loop over \<^verbatim>\<open>self.desired_items\<close>; the loop state is the pair of
  \<^verbatim>\<open>desired_nondefault_objs\<close> and \<^verbatim>\<open>schemas\<close>. The order in which
  \<^verbatim>\<open>list(self.personal_schemas)\<close> lists a set is not fixed by Python; the model lists it
  sorted.
\<close>

definition identify_item ::
  "'dbo modules \<Rightarrow> 'dbo PrivilegeAnalyzer \<Rightarrow> string \<Rightarrow> string set \<times> string list
     \<Rightarrow> error + string set \<times> string list" where
  "identify_item env self item st =
     (case st of (desired_nondefault_objs, schemas) \<Rightarrow>
        if item = ''personal_schemas'' \<and> object_kind self = ''schemas''
        then Inr (desired_nondefault_objs \<union> personal_schemas self, schemas)
        else if item = ''personal_schemas'' \<and> object_kind self \<noteq> ''schemas''
        then Inl (Fail (PERSONAL_SCHEMAS_ERROR_MSG (rolename self) (object_kind self) (access self)))
        else if item = ''personal_schemas.*''
        then Inr (desired_nondefault_objs, schemas @ sorted_list_of_set (personal_schemas self))
        else if \<not> suffix ''.*'' item
        then (let quoted_item = ensure_quoted_identifier env item
              in case get_object_owner env self quoted_item None of
                   Inl e \<Rightarrow> Inl e
                 | Inr owner' \<Rightarrow>
                     if owner' \<noteq> rolename self
                     then Inr (insert quoted_item desired_nondefault_objs, schemas)
                     else Inr (desired_nondefault_objs, schemas))
        else Inr (desired_nondefault_objs, schemas @ [take (length item - 2) item]))"

definition identify_desired_objects ::
  "'dbo modules \<Rightarrow> 'dbo PrivilegeAnalyzer \<Rightarrow> error + 'dbo PrivilegeAnalyzer" where
  "identify_desired_objects env self =
     (case for_each_raise (identify_item env self) (desired_items self) ({}, []) of
        Inl e \<Rightarrow> Inl e
      | Inr (desired_nondefault_objs, schemas) \<Rightarrow>
          (let desired_nondefault_objs =
                 fold (\<lambda>schema objs. objs \<union> get_schema_objects env self schema)
                   schemas desired_nondefault_objs
           in case privilege_types env self of
                Inl e \<Rightarrow> Inl e
              | Inr priv_types \<Rightarrow>
                  (let self = self\<lparr>desired_nondefaults :=
                                     desired_nondefault_objs \<times> set priv_types\<rparr>
                   in if default_acl_possible self
                      then determine_desired_defaults env self schemas
                      else Inr self)))"

definition analyze :: "'dbo modules \<Rightarrow> 'dbo PrivilegeAnalyzer \<Rightarrow> error + statement list" where
  "analyze env self =
     (case identify_desired_objects env self of
        Inl e \<Rightarrow> Inl e
      | Inr self \<Rightarrow>
          (let self = analyze_nondefaults self;
               self = (if default_acl_possible self then analyze_defaults self else self)
           in Inr (sql_to_run self)))"

section \<open>A concrete instance\<close>

text \<open>
  An instance of the parameters, for evaluating the model: a \<^verbatim>\<open>DBObject\<close> is the pair of
  its schema and its object name, its qualified name joins the two with a dot, every role
  name passes \<^verbatim>\<open>check_name\<close> and identifiers are left as they are. The database has the
  schemas \<^verbatim>\<open>finance\<close> (of \<^verbatim>\<open>etl\<close>) and \<^verbatim>\<open>ann\<close> (of \<^verbatim>\<open>ann\<close>) and three tables in
  \<^verbatim>\<open>finance\<close>, the last one owned by \<^verbatim>\<open>ann\<close>; \<^verbatim>\<open>ann\<close> holds \<^verbatim>\<open>SELECT\<close> on a table
  \<^verbatim>\<open>finance.t0\<close> and a default \<^verbatim>\<open>SELECT\<close> granted by \<^verbatim>\<open>old\<close>.
\<close>

definition example_modules :: "(string \<times> string option) modules" where
  "example_modules =
     \<lparr>PRIVILEGE_MAP =
        [(''schemas'', [(''read'', [''USAGE'']), (''write'', [''CREATE''])]),
         (''sequences'', [(''read'', [''SELECT'']), (''write'', [''USAGE'', ''UPDATE''])]),
         (''tables'', [(''read'', [''SELECT'']),
                       (''write'', [''INSERT'', ''UPDATE'', ''DELETE'', ''TRUNCATE'',
                                    ''REFERENCES'', ''TRIGGER''])])],
      DBObject = Pair,
      qualified_name = (\<lambda>(schema, object_name).
         case object_name of None \<Rightarrow> schema | Some n \<Rightarrow> schema @ ''.'' @ n),
      check_name = Inr,
      ensure_quoted_identifier = (\<lambda>item. item)\<rparr>"

definition example_attributes :: "(string \<times> string option) object_attrs" where
  "example_attributes =
     [(''tables'',
         [(''finance'', [((''finance'', Some ''t1''), \<lparr>owner = ''etl''\<rparr>),
                         ((''finance'', Some ''t2''), \<lparr>owner = ''etl''\<rparr>),
                         ((''finance'', Some ''t3''), \<lparr>owner = ''ann''\<rparr>)])]),
      (''schemas'',
         [(''finance'', [((''finance'', None), \<lparr>owner = ''etl''\<rparr>)]),
          (''ann'', [((''ann'', None), \<lparr>owner = ''ann''\<rparr>)])])]"

definition example_context :: "(string \<times> string option) DatabaseContext" where
  "example_context =
     \<lparr>db_is_superuser = (\<lambda>role. role = ''admin''),
      get_role_current_defaults = (\<lambda>role kind acc.
         if role = ''ann'' \<and> kind = ''tables'' \<and> acc = ''read''
         then [(''old'', ''finance'', ''SELECT'')] else []),
      get_role_current_nondefaults = (\<lambda>role kind acc.
         if role = ''ann'' \<and> kind = ''tables'' \<and> acc = ''read''
         then [((''finance'', Some ''t0''), ''SELECT'')] else []),
      get_all_object_attributes = example_attributes\<rparr>"

definition example_writers :: "(string \<times> string set) list" where
  "example_writers =
     [(''finance'', {''admin'', ''ann'', ''etl'', ''writers''}),
      (''ann'', {''admin'', ''ann'', ''writers''})]"

definition example_analyzer ::
  "string \<Rightarrow> string \<Rightarrow> string \<Rightarrow> string list \<Rightarrow> (string \<times> string option) PrivilegeAnalyzer" where
  "example_analyzer role acc kind items =
     \<lparr>sql_to_run = [],
      rolename = role,
      access = acc,
      object_kind = kind,
      desired_items = items,
      schema_writers = example_writers,
      personal_schemas = {''ann''},
      default_acl_possible = (kind \<in> set OBJECTS_WITH_DEFAULTS),
      current_defaults = set (get_role_current_defaults example_context role kind acc),
      current_nondefaults =
        set (map (\<lambda>(dbo, priv). (qualified_name example_modules dbo, priv))
               (get_role_current_nondefaults example_context role kind acc)),
      all_object_attrs = example_attributes,
      desired_nondefaults = {},
      desired_defaults = {}\<rparr>"

section \<open>Vocabulary of the properties\<close>

text \<open>
  An item of the desired-items list passes the loop of \<^verbatim>\<open>identify_desired_objects\<close>
  without an error when it is not a singly named object or when the owner of the object
  it names is found.
\<close>

definition singly_named :: "string \<Rightarrow> bool" where
  "singly_named item \<longleftrightarrow>
     item \<noteq> ''personal_schemas'' \<and> item \<noteq> ''personal_schemas.*'' \<and> \<not> suffix ''.*'' item"

definition owner_found :: "'dbo modules \<Rightarrow> 'dbo PrivilegeAnalyzer \<Rightarrow> string \<Rightarrow> bool" where
  "owner_found env self item =
     (case get_object_owner env self (ensure_quoted_identifier env item) None of
        Inl e \<Rightarrow> False
      | Inr owner' \<Rightarrow> True)"

text \<open>
  The loop reaches the item \<^verbatim>\<open>'personal_schemas'\<close>: the item is in the list and every item
  before its first occurrence passes.
\<close>

fun keyword_reached :: "'dbo modules \<Rightarrow> 'dbo PrivilegeAnalyzer \<Rightarrow> string list \<Rightarrow> bool" where
  "keyword_reached env self [] = False"
| "keyword_reached env self (item # items) =
     (if item = ''personal_schemas'' then True
      else (singly_named item \<longrightarrow> owner_found env self item) \<and> keyword_reached env self items)"

section \<open>The analysis of a whole spec\<close>

text \<open>
  \<^verbatim>\<open>desired_items = desired_items_this_obj.get(access, [])\<close> followed, for read access, by
  \<^verbatim>\<open>desired_items += desired_items_this_obj.get('write', [])\<close>. When the dict has the key
  \<^verbatim>\<open>'read'\<close>, \<^verbatim>\<open>desired_items\<close> is the list object stored in the dict and \<^verbatim>\<open>+=\<close>
  extends that object in place; otherwise it is the fresh default list. The result is
  the list handed to the analyzer and the dict as it is afterwards. The lists of a spec
  are taken to be distinct objects.
\<close>

definition get_desired_items :: "string \<Rightarrow> obj_privs \<Rightarrow> string list \<times> obj_privs" where
  "get_desired_items access' desired_items_this_obj =
     (if access' = ''read''
      then (case map_of desired_items_this_obj ''read'' of
              None \<Rightarrow> ([] @ dict_get desired_items_this_obj ''write'' [], desired_items_this_obj)
            | Some desired_items' \<Rightarrow>
                (let desired_items' = desired_items' @ dict_get desired_items_this_obj ''write'' []
                 in (desired_items',
                     AList.update ''read'' desired_items' desired_items_this_obj)))
      else (dict_get desired_items_this_obj access' [], desired_items_this_obj))"

text \<open>The body of \<^verbatim>\<open>for access in ('read', 'write')\<close>.\<close>

definition analyze_access ::
  "'dbo modules \<Rightarrow> 'dbo DatabaseContext \<Rightarrow> (string \<times> string set) list \<Rightarrow> string set
     \<Rightarrow> string \<Rightarrow> string \<Rightarrow> string \<Rightarrow> obj_privs \<times> statement list
     \<Rightarrow> error + obj_privs \<times> statement list" where
  "analyze_access env dbcontext schema_writers' personal_schemas' rolename' object_kind' access' st =
     (case st of (desired_items_this_obj, all_sql_to_run) \<Rightarrow>
        (case get_desired_items access' desired_items_this_obj of
           (desired_items', desired_items_this_obj) \<Rightarrow>
             (case new_PrivilegeAnalyzer env rolename' access' object_kind' desired_items'
                     schema_writers' personal_schemas' dbcontext of
                Inl e \<Rightarrow> Inl e
              | Inr privconf \<Rightarrow>
                  (case analyze env privconf of
                     Inl e \<Rightarrow> Inl e
                   | Inr role_sql_to_run \<Rightarrow>
                       Inr (desired_items_this_obj, all_sql_to_run @ role_sql_to_run)))))"

text \<open>
  The body of \<^verbatim>\<open>for object_kind in PRIVILEGE_MAP.keys()\<close>. When the role's privileges
  have no entry for the kind, the loop over the access levels works on a fresh empty dict.
\<close>

definition analyze_object_kind ::
  "'dbo modules \<Rightarrow> 'dbo DatabaseContext \<Rightarrow> (string \<times> string set) list \<Rightarrow> string set
     \<Rightarrow> string \<Rightarrow> string \<Rightarrow> (string \<times> obj_privs) list \<times> statement list
     \<Rightarrow> error + (string \<times> obj_privs) list \<times> statement list" where
  "analyze_object_kind env dbcontext schema_writers' personal_schemas' rolename' object_kind' st =
     (case st of (all_desired_privs, all_sql_to_run) \<Rightarrow>
        (case for_each_raise
                (analyze_access env dbcontext schema_writers' personal_schemas' rolename' object_kind')
                [''read'', ''write'']
                (dict_get all_desired_privs object_kind' [], all_sql_to_run) of
           Inl e \<Rightarrow> Inl e
         | Inr (desired_items_this_obj, all_sql_to_run) \<Rightarrow>
             Inr (case map_of all_desired_privs object_kind' of
                    None \<Rightarrow> all_desired_privs
                  | Some d \<Rightarrow> AList.update object_kind' desired_items_this_obj all_desired_privs,
                  all_sql_to_run)))"

text \<open>
  The body of \<^verbatim>\<open>for rolename, config in all_roles\<close>. The loop state is the list of the
  items of the spec already visited, as the run leaves them, and \<^verbatim>\<open>all_sql_to_run\<close>.
\<close>

definition analyze_role ::
  "'dbo modules \<Rightarrow> 'dbo DatabaseContext \<Rightarrow> (string \<times> string set) list \<Rightarrow> string set
     \<Rightarrow> string \<times> role_config option \<Rightarrow> spec \<times> statement list
     \<Rightarrow> error + spec \<times> statement list" where
  "analyze_role env dbcontext schema_writers' personal_schemas' item st =
     (case item of (rolename', config) \<Rightarrow>
      (case st of (visited, all_sql_to_run) \<Rightarrow>
        if db_is_superuser dbcontext rolename'
        then Inr (visited @ [(rolename', config)],
                  all_sql_to_run @ [SKIP_SUPERUSER_PRIVILEGE_CONFIGURATION_MSG rolename'])
        else (let all_desired_privs = (case config of None \<Rightarrow> [] | Some c \<Rightarrow> privileges c)
              in case for_each_raise
                        (analyze_object_kind env dbcontext schema_writers' personal_schemas'
                           rolename')
                        (map fst (PRIVILEGE_MAP env)) (all_desired_privs, all_sql_to_run) of
                   Inl e \<Rightarrow> Inl e
                 | Inr (all_desired_privs, all_sql_to_run) \<Rightarrow>
                     Inr (visited @
                            [(rolename',
                              map_option (\<lambda>c. c\<lparr>privileges := all_desired_privs\<rparr>) config)],
                          all_sql_to_run))))"

text \<open>
  \<^verbatim>\<open>analyze_privileges\<close>: the list it returns, together with the spec as the run leaves
  it. \<open>None\<close> when the membership resolution inside \<^verbatim>\<open>determine_schema_writers\<close> does not
  return.
\<close>

definition analyze_privileges ::
  "'dbo modules \<Rightarrow> 'dbo DatabaseContext \<Rightarrow> spec \<Rightarrow> (error + statement list \<times> spec) option" where
  "analyze_privileges env dbcontext spec =
     (case determine_schema_writers spec of
        None \<Rightarrow> None
      | Some (Inl e) \<Rightarrow> Some (Inl e)
      | Some (Inr schema_writers') \<Rightarrow>
          (let personal_schemas' = determine_personal_schemas spec
           in Some (case for_each_raise
                           (analyze_role env dbcontext schema_writers' personal_schemas')
                           spec ([], []) of
                      Inl e \<Rightarrow> Inl e
                    | Inr (spec', all_sql_to_run) \<Rightarrow> Inr (all_sql_to_run, spec'))))"

definition spec_read_write :: spec where
  "spec_read_write =
     [(''admin'', Some \<lparr>is_superuser = True, has_personal_schema = False, member_of = [],
                       owns = [], privileges = []\<rparr>),
      (''etl'', Some \<lparr>is_superuser = False, has_personal_schema = False, member_of = [],
                     owns = [(''schemas'', [''finance''])], privileges = []\<rparr>),
      (''ann'', Some \<lparr>is_superuser = False, has_personal_schema = False, member_of = [],
                     owns = [],
                     privileges = [(''tables'', [(''read'', [''finance.t1'']),
                                                 (''write'', [''finance.t2''])])]\<rparr>)]"

section \<open>Applying the statements to a snapshot\<close>

text \<open>
  What a statement does to the current privileges of the role, object kind and access
  level whose analyzer emitted it: a non-default grant adds the pair of object and
  privilege to the current non-default set, a revoke removes it; a default grant adds the
  triple of grantor, schema and privilege to the current default set, a revoke removes
  it. The note about a superuser changes nothing.
\<close>

fun apply_nondefault :: "statement \<Rightarrow> (string \<times> string) set \<Rightarrow> (string \<times> string) set" where
  "apply_nondefault (Q_GRANT_NONDEFAULT privilege kind objname role) current =
     insert (objname, privilege) current"
| "apply_nondefault (Q_REVOKE_NONDEFAULT privilege kind objname role) current =
     current - {(objname, privilege)}"
| "apply_nondefault stmt current = current"

fun apply_default ::
  "statement \<Rightarrow> (string \<times> string \<times> string) set \<Rightarrow> (string \<times> string \<times> string) set" where
  "apply_default (Q_GRANT_DEFAULT grantor schema privilege kind role) current =
     insert (grantor, schema, privilege) current"
| "apply_default (Q_REVOKE_DEFAULT grantor schema privilege kind role) current =
     current - {(grantor, schema, privilege)}"
| "apply_default stmt current = current"

text \<open>
  The statements that the analyzer of one role, object kind and access level emits in a
  run, given the role's dict for the kind; no statement if the analyzer fails.
\<close>

definition role_sql_to_run ::
  "'dbo modules \<Rightarrow> 'dbo DatabaseContext \<Rightarrow> (string \<times> string set) list \<Rightarrow> string set
     \<Rightarrow> string \<Rightarrow> string \<Rightarrow> string \<Rightarrow> obj_privs \<Rightarrow> statement list" where
  "role_sql_to_run env dbcontext schema_writers' personal_schemas' rolename' object_kind' access' d =
     (case new_PrivilegeAnalyzer env rolename' access' object_kind'
             (fst (get_desired_items access' d)) schema_writers' personal_schemas' dbcontext of
        Inl e \<Rightarrow> []
      | Inr privconf \<Rightarrow> (case analyze env privconf of Inl e \<Rightarrow> [] | Inr sql \<Rightarrow> sql))"

text \<open>
  The current sets of the second context, for one role, object kind and access level, are
  those of the first context with the statements of that analyzer applied; the role's dict
  for the kind is \<open>d\<close>.
\<close>

definition sets_after ::
  "'dbo modules \<Rightarrow> 'dbo DatabaseContext \<Rightarrow> (string \<times> string set) list \<Rightarrow> string set
     \<Rightarrow> 'dbo DatabaseContext \<Rightarrow> string \<Rightarrow> string \<Rightarrow> string \<Rightarrow> obj_privs \<Rightarrow> bool" where
  "sets_after env dbcontext schema_writers' personal_schemas' dbcontext' rolename' object_kind'
       access' d \<longleftrightarrow>
     set (get_role_current_defaults dbcontext' rolename' object_kind' access') =
       fold apply_default
         (role_sql_to_run env dbcontext schema_writers' personal_schemas' rolename' object_kind'
            access' d)
         (set (get_role_current_defaults dbcontext rolename' object_kind' access'))
     \<and> set (map (\<lambda>(dbo, priv). (qualified_name env dbo, priv))
              (get_role_current_nondefaults dbcontext' rolename' object_kind' access')) =
       fold apply_nondefault
         (role_sql_to_run env dbcontext schema_writers' personal_schemas' rolename' object_kind'
            access' d)
         (set (map (\<lambda>(dbo, priv). (qualified_name env dbo, priv))
                 (get_role_current_nondefaults dbcontext rolename' object_kind' access')))"

text \<open>
  \<open>snapshot_after env dbcontext spec dbcontext'\<close>: the second context is the first one
  after the statements of a run over the spec have been applied. It has the same
  superusers among the roles of the spec and the same objects, and for every role of the
  spec that is not a superuser, every object kind of \<^verbatim>\<open>PRIVILEGE_MAP\<close> and both access
  levels, its current sets are those of the first context with the statements of that
  analyzer applied.
\<close>

definition snapshot_after ::
  "'dbo modules \<Rightarrow> 'dbo DatabaseContext \<Rightarrow> spec \<Rightarrow> 'dbo DatabaseContext \<Rightarrow> bool" where
  "snapshot_after env dbcontext spec dbcontext' =
     (case determine_schema_writers spec of
        Some (Inr schema_writers') \<Rightarrow>
          get_all_object_attributes dbcontext' = get_all_object_attributes dbcontext \<and>
          list_all (\<lambda>(rolename', config).
            db_is_superuser dbcontext' rolename' = db_is_superuser dbcontext rolename' \<and>
            (db_is_superuser dbcontext rolename' \<or>
             list_all (\<lambda>object_kind'.
               list_all (\<lambda>access'.
                 sets_after env dbcontext schema_writers' (determine_personal_schemas spec)
                   dbcontext' rolename' object_kind' access'
                   (dict_get (case config of None \<Rightarrow> [] | Some c \<Rightarrow> privileges c)
                      object_kind' []))
                 [''read'', ''write''])
               (map fst (PRIVILEGE_MAP env)))) spec
      | _ \<Rightarrow> False)"

text \<open>A statement that is neither a grant nor a revoke.\<close>

fun is_note :: "statement \<Rightarrow> bool" where
  "is_note (SKIP_SUPERUSER_PRIVILEGE_CONFIGURATION_MSG role) = True"
| "is_note stmt = False"

text \<open>What one item of the desired-items list adds to the objects and to the schemas.\<close>

definition item_objects :: "'dbo modules \<Rightarrow> 'dbo PrivilegeAnalyzer \<Rightarrow> string \<Rightarrow> string set" where
  "item_objects env self item =
     (if item = ''personal_schemas''
      then (if object_kind self = ''schemas'' then personal_schemas self else {})
      else if singly_named item
      then (case get_object_owner env self (ensure_quoted_identifier env item) None of
              Inl e \<Rightarrow> {}
            | Inr owner' \<Rightarrow>
                if owner' \<noteq> rolename self then {ensure_quoted_identifier env item} else {})
      else {})"

definition item_schemas :: "'dbo PrivilegeAnalyzer \<Rightarrow> string \<Rightarrow> string set" where
  "item_schemas self item =
     (if item = ''personal_schemas'' then {}
      else if item = ''personal_schemas.*'' then personal_schemas self
      else if suffix ''.*'' item then {take (length item - 2) item}
      else {})"

text \<open>
  The sets that \<^verbatim>\<open>identify_desired_objects\<close> builds from a list of items: the items pass
  the loop, the schemas named by wildcards, the objects wanted, and the default
  privileges wanted for a list of privilege names.
\<close>

definition items_pass :: "'dbo modules \<Rightarrow> 'dbo PrivilegeAnalyzer \<Rightarrow> string set \<Rightarrow> bool" where
  "items_pass env self items \<longleftrightarrow>
     (\<forall>item \<in> items.
        (item = ''personal_schemas'' \<longrightarrow> object_kind self = ''schemas'')
        \<and> (singly_named item \<longrightarrow> owner_found env self item))"

definition wildcard_schemas :: "'dbo PrivilegeAnalyzer \<Rightarrow> string set \<Rightarrow> string set" where
  "wildcard_schemas self items = (\<Union>item \<in> items. item_schemas self item)"

definition wanted_objects :: "'dbo modules \<Rightarrow> 'dbo PrivilegeAnalyzer \<Rightarrow> string set \<Rightarrow> string set" where
  "wanted_objects env self items =
     (\<Union>item \<in> items. item_objects env self item) \<union>
     (\<Union>schema \<in> wildcard_schemas self items. get_schema_objects env self schema)"

definition wanted_defaults ::
  "'dbo PrivilegeAnalyzer \<Rightarrow> string set \<Rightarrow> string list \<Rightarrow> (string \<times> string \<times> string) set" where
  "wanted_defaults self items pt =
     (\<Union>schema \<in> wildcard_schemas self items.
        (\<lambda>(writer, pg_priv_kind). (writer, schema, pg_priv_kind)) `
          ((dict_get (schema_writers self) schema {} - {rolename self}) \<times> set pt))"

text \<open>
  The statements that close the difference between desired and current sets, in the
  order in which \<^verbatim>\<open>analyze_nondefaults\<close> and \<^verbatim>\<open>analyze_defaults\<close> emit them.
\<close>

definition difference_statements ::
  "string \<Rightarrow> string \<Rightarrow> bool \<Rightarrow> (string \<times> string) set \<Rightarrow> (string \<times> string) set
     \<Rightarrow> (string \<times> string \<times> string) set \<Rightarrow> (string \<times> string \<times> string) set \<Rightarrow> statement list" where
  "difference_statements kind role acl nd cn dd cd =
     map (\<lambda>(objname, pg_priv_kind).
            Q_GRANT_NONDEFAULT pg_priv_kind (butlast (upper kind)) objname role)
         (sorted_list_of_set (nd - cn)) @
     map (\<lambda>(objname, pg_priv_kind).
            Q_REVOKE_NONDEFAULT pg_priv_kind (butlast (upper kind)) objname role)
         (sorted_list_of_set (cn - nd)) @
     (if acl
      then map (\<lambda>(grantor, schema, pg_priv_kind).
                  Q_GRANT_DEFAULT grantor schema pg_priv_kind (upper kind) role)
               (sorted_list_of_set (dd - cd)) @
           map (\<lambda>(grantor, schema, pg_priv_kind).
                  Q_REVOKE_DEFAULT grantor schema pg_priv_kind (upper kind) role)
               (sorted_list_of_set (cd - dd))
      else [])"

text \<open>
  The analyzer of one role, object kind and access level returns its statements, given the
  role's dict for the kind.
\<close>

definition analyzer_ran ::
  "'dbo modules \<Rightarrow> 'dbo DatabaseContext \<Rightarrow> (string \<times> string set) list \<Rightarrow> string set
     \<Rightarrow> string \<Rightarrow> string \<Rightarrow> string \<Rightarrow> obj_privs \<Rightarrow> bool" where
  "analyzer_ran env dbcontext schema_writers' personal_schemas' rolename' object_kind' access' d =
     (case new_PrivilegeAnalyzer env rolename' access' object_kind'
             (fst (get_desired_items access' d)) schema_writers' personal_schemas' dbcontext of
        Inl e \<Rightarrow> False
      | Inr privconf \<Rightarrow> (case analyze env privconf of Inl e \<Rightarrow> False | Inr sql \<Rightarrow> True))"

text \<open>
  Two dicts of one object kind with the same write list and the same items in the read
  list once the write list is added; two privileges dicts that agree so for every kind;
  two configurations that differ at most so.
\<close>

definition same_items :: "obj_privs \<Rightarrow> obj_privs \<Rightarrow> bool" where
  "same_items d d' \<longleftrightarrow>
     dict_get d' ''write'' [] = dict_get d ''write'' [] \<and>
     set (dict_get d' ''read'' [] @ dict_get d' ''write'' []) =
       set (dict_get d ''read'' [] @ dict_get d ''write'' [])"

definition same_privileges :: "(string \<times> obj_privs) list \<Rightarrow> (string \<times> obj_privs) list \<Rightarrow> bool" where
  "same_privileges privs privs' \<longleftrightarrow>
     (\<forall>object_kind'. same_items (dict_get privs object_kind' []) (dict_get privs' object_kind' []))"

definition same_config :: "role_config option \<Rightarrow> role_config option \<Rightarrow> bool" where
  "same_config config config' \<longleftrightarrow>
     (case config of
        None \<Rightarrow> config' = None
      | Some c \<Rightarrow>
          (\<exists>privs'. config' = Some (c\<lparr>privileges := privs'\<rparr>) \<and>
                    same_privileges (privileges c) privs'))"

definition same_spec :: "spec \<Rightarrow> spec \<Rightarrow> bool" where
  "same_spec spec spec' \<longleftrightarrow>
     list_all2 (\<lambda>item item'. fst item' = fst item \<and> same_config (snd item) (snd item'))
       spec spec'"

text \<open>The privileges of a role: \<^verbatim>\<open>(config or {}).get('privileges', {})\<close>.\<close>

definition privileges_of :: "role_config option \<Rightarrow> (string \<times> obj_privs) list" where
  "privileges_of config = (case config of None \<Rightarrow> [] | Some c \<Rightarrow> privileges c)"

text \<open>
  For one role of the spec: the analyzers of the first run returned and the second
  context holds their statements, for every kind of the list and both access levels.
\<close>

definition role_settled ::
  "'dbo modules \<Rightarrow> 'dbo DatabaseContext \<Rightarrow> (string \<times> string set) list \<Rightarrow> string set
     \<Rightarrow> 'dbo DatabaseContext \<Rightarrow> string list \<Rightarrow> string \<times> role_config option \<Rightarrow> bool" where
  "role_settled env db sw ps db' kinds item \<longleftrightarrow>
     db_is_superuser db' (fst item) = db_is_superuser db (fst item) \<and>
     (db_is_superuser db (fst item) \<or>
      (\<forall>k \<in> set kinds.
         analyzer_ran env db sw ps (fst item) k ''read'' (dict_get (privileges_of (snd item)) k []) \<and>
         analyzer_ran env db sw ps (fst item) k ''write'' (dict_get (privileges_of (snd item)) k []) \<and>
         sets_after env db sw ps db' (fst item) k ''read'' (dict_get (privileges_of (snd item)) k []) \<and>
         sets_after env db sw ps db' (fst item) k ''write'' (dict_get (privileges_of (snd item)) k [])))"

section \<open>Membership resolution\<close>








lemma superusers_fold:
  "role \<in> fold (\<lambda>(role, config) superusers.
        case config of
          None \<Rightarrow> superusers
        | Some c \<Rightarrow> if is_superuser c then insert role superusers else superusers) xs acc
   \<longleftrightarrow> role \<in> acc \<or> (\<exists>c. (role, Some c) \<in> set xs \<and> is_superuser c)"
  by (induction xs arbitrary: acc) (auto split: option.splits if_splits)

lemma determine_superusers_iff:
  "role \<in> determine_superusers spec \<longleftrightarrow> (\<exists>c. (role, Some c) \<in> set spec \<and> is_superuser c)"
  by (simp add: determine_superusers_def superusers_fold)

lemma personal_schemas_fold:
  "role \<in> fold (\<lambda>(role, config) personal_schemas.
        if (case config of None \<Rightarrow> False | Some c \<Rightarrow> has_personal_schema c)
        then insert role personal_schemas else personal_schemas) xs acc
   \<longleftrightarrow> role \<in> acc \<or> (\<exists>c. (role, Some c) \<in> set xs \<and> has_personal_schema c)"
  by (induction xs arbitrary: acc) (auto split: option.splits if_splits)

lemma determine_personal_schemas_iff:
  "role \<in> determine_personal_schemas spec \<longleftrightarrow> (\<exists>c. (role, Some c) \<in> set spec \<and> has_personal_schema c)"
  by (simp add: determine_personal_schemas_def personal_schemas_fold)

lemma finite_determine_personal_schemas: "finite (determine_personal_schemas spec)"
proof -
  have "determine_personal_schemas spec \<subseteq> fst ` set spec"
    by (force simp: determine_personal_schemas_iff)
  then show ?thesis by (rule finite_subset) simp
qed

lemma finite_writable_schemas: "finite (writable_schemas (determine_personal_schemas spec) config)"
  by (auto simp: writable_schemas_def Let_def finite_determine_personal_schemas split: option.splits)

lemma owned_fold_keys:
  "fst ` set (fold (\<lambda>schema schema_owners. AList.update schema role schema_owners) xs acc)
     = fst ` set acc \<union> set xs"
  by (induction xs arbitrary: acc) (auto simp: dom_update)

lemma schema_owners_fold_keys:
  "schema \<in> fst ` set (fold (\<lambda>(role, config) schema_owners.
        case config of
          None \<Rightarrow> schema_owners
        | Some c \<Rightarrow>
            (let schema_owners =
                   fold (\<lambda>schema schema_owners. AList.update schema role schema_owners)
                     (owned_schemas c) schema_owners
             in if has_personal_schema c then AList.update role role schema_owners
                else schema_owners)) xs acc)
   \<longleftrightarrow> schema \<in> fst ` set acc \<or>
       (\<exists>role c. (role, Some c) \<in> set xs \<and>
          (schema \<in> set (owned_schemas c) \<or> (has_personal_schema c \<and> schema = role)))"
proof (induction xs arbitrary: acc)
  case Nil
  show ?case by simp
next
  case (Cons x xs)
  obtain role config where x: "x = (role, config)" by (cases x)
  show ?case
    unfolding x
    apply (simp add: Cons.IH)
    apply (cases config)
     apply (auto simp: Let_def dom_update owned_fold_keys)
    done
qed

lemma has_known_owner_iff:
  "has_known_owner spec schema \<longleftrightarrow>
     (\<exists>role c. (role, Some c) \<in> set spec \<and>
          (schema \<in> set (owned_schemas c) \<or> (has_personal_schema c \<and> schema = role)))"
  unfolding has_known_owner_def list_ex_iff
  by (auto split: option.splits) force+

lemma schema_owners_keys:
  "schema \<in> fst ` set (determine_schema_owners spec) \<longleftrightarrow> has_known_owner spec schema"
  unfolding determine_schema_owners_def schema_owners_fold_keys has_known_owner_iff
  by simp

lemma add_schema_writers_Inr:
  assumes "add_schema_writers role m schema w = Inr w'"
  shows "schema \<in> fst ` set w \<and> fst ` set w' = fst ` set w"
proof -
  from assms obtain vals role_members where v: "map_of w schema = Some vals"
    and w': "w' = AList.update schema (insert role vals \<union> role_members) w"
    by (auto simp: add_schema_writers_def split: option.splits)
  have k: "schema \<in> fst ` set w"
    using v by (metis map_of_SomeD image_eqI fst_conv)
  then show ?thesis unfolding w' by (auto simp: dom_update)
qed

lemma add_schema_writers_Inl:
  "add_schema_writers role m schema w = Inl e \<Longrightarrow> e = KeyError"
  by (auto simp: add_schema_writers_def split: option.splits)

lemma add_schema_writers_ok:
  assumes "role \<in> fst ` set m" "schema \<in> fst ` set w"
  shows "\<exists>w'. add_schema_writers role m schema w = Inr w'"
proof -
  obtain vals where "map_of w schema = Some vals"
    using assms(2) by (metis domD dom_map_of_conv_image_fst)
  moreover obtain ms where "map_of m role = Some ms"
    using assms(1) by (metis domD dom_map_of_conv_image_fst)
  ultimately show ?thesis by (simp add: add_schema_writers_def)
qed

lemma add_schema_writers_missing:
  "schema \<notin> fst ` set w \<Longrightarrow> add_schema_writers role m schema w = Inl KeyError"
  by (auto simp: add_schema_writers_def map_of_eq_None_iff split: option.splits)

lemma inner_Inr:
  "for_each_raise (add_schema_writers role m) xs w = Inr w'
     \<Longrightarrow> set xs \<subseteq> fst ` set w \<and> fst ` set w' = fst ` set w"
proof (induction xs arbitrary: w)
  case Nil
  then show ?case by simp
next
  case (Cons x xs)
  from Cons.prems obtain w1 where 1: "add_schema_writers role m x w = Inr w1"
    and 2: "for_each_raise (add_schema_writers role m) xs w1 = Inr w'"
    by (auto split: sum.splits)
  show ?case using add_schema_writers_Inr [OF 1] Cons.IH [OF 2] by auto
qed

lemma inner_Inl:
  "for_each_raise (add_schema_writers role m) xs w = Inl e \<Longrightarrow> e = KeyError"
  by (induction xs arbitrary: w) (auto split: sum.splits dest: add_schema_writers_Inl)

lemma inner_ok:
  "role \<in> fst ` set m \<Longrightarrow> set xs \<subseteq> fst ` set w
     \<Longrightarrow> \<exists>w'. for_each_raise (add_schema_writers role m) xs w = Inr w'"
proof (induction xs arbitrary: w)
  case Nil
  then show ?case by simp
next
  case (Cons x xs)
  obtain w1 where 1: "add_schema_writers role m x w = Inr w1"
    using add_schema_writers_ok [of role m x w] Cons.prems by auto
  have "fst ` set w1 = fst ` set w" using add_schema_writers_Inr [OF 1] by simp
  then show ?case using 1 Cons.IH [of w1] Cons.prems by auto
qed

lemma inner_missing:
  "\<not> set xs \<subseteq> fst ` set w \<Longrightarrow> for_each_raise (add_schema_writers role m) xs w = Inl KeyError"
proof (induction xs arbitrary: w)
  case Nil
  then show ?case by simp
next
  case (Cons x xs)
  show ?case
  proof (cases "add_schema_writers role m x w")
    case (Inl e)
    then show ?thesis using add_schema_writers_Inl [OF Inl] by simp
  next
    case (Inr w1)
    have "fst ` set w1 = fst ` set w" "x \<in> fst ` set w"
      using add_schema_writers_Inr [OF Inr] by simp_all
    then show ?thesis using Inr Cons.IH [of w1] Cons.prems by auto
  qed
qed

lemma outer_Inr:
  assumes "for_each_raise (\<lambda>(role, config) writers.
              for_each_raise (add_schema_writers role m)
                (sorted_list_of_set (writable_schemas (determine_personal_schemas spec) config)) writers)
            zs w = Inr w'"
  shows "(\<forall>(role, config) \<in> set zs.
            writable_schemas (determine_personal_schemas spec) config \<subseteq> fst ` set w)
         \<and> fst ` set w' = fst ` set w"
  using assms
proof (induction zs arbitrary: w)
  case Nil
  then show ?case by simp
next
  case (Cons z zs)
  obtain role config where z: "z = (role, config)" by (cases z)
  from Cons.prems obtain w1 where
    1: "for_each_raise (add_schema_writers role m)
          (sorted_list_of_set (writable_schemas (determine_personal_schemas spec) config)) w = Inr w1"
    and 2: "for_each_raise (\<lambda>(role, config) writers.
              for_each_raise (add_schema_writers role m)
                (sorted_list_of_set (writable_schemas (determine_personal_schemas spec) config)) writers)
            zs w1 = Inr w'"
    unfolding z by (auto split: sum.splits)
  have a: "writable_schemas (determine_personal_schemas spec) config \<subseteq> fst ` set w"
    and b: "fst ` set w1 = fst ` set w"
    using inner_Inr [OF 1] by (simp_all add: finite_writable_schemas)
  show ?case using Cons.IH [OF 2] a b unfolding z by auto
qed

lemma outer_Inl:
  "for_each_raise (\<lambda>(role, config) writers.
              for_each_raise (add_schema_writers role m) (xs config) writers)
            zs w = Inl e \<Longrightarrow> e = KeyError"
proof (induction zs arbitrary: w)
  case Nil
  then show ?case by simp
next
  case (Cons z zs)
  obtain role config where z: "z = (role, config)" by (cases z)
  show ?case
  proof (cases "for_each_raise (add_schema_writers role m) (xs config) w")
    case (Inl e')
    then show ?thesis using Cons.prems inner_Inl [OF Inl] unfolding z by simp
  next
    case (Inr w1)
    then show ?thesis using Cons.prems Cons.IH [of w1] unfolding z by simp
  qed
qed

lemma outer_ok:
  assumes "\<forall>(role, config) \<in> set zs. role \<in> fst ` set m \<and>
             writable_schemas (determine_personal_schemas spec) config \<subseteq> fst ` set w"
  shows "\<exists>w'. for_each_raise (\<lambda>(role, config) writers.
              for_each_raise (add_schema_writers role m)
                (sorted_list_of_set (writable_schemas (determine_personal_schemas spec) config)) writers)
            zs w = Inr w'"
  using assms
proof (induction zs arbitrary: w)
  case Nil
  then show ?case by simp
next
  case (Cons z zs)
  obtain role config where z: "z = (role, config)" by (cases z)
  have "role \<in> fst ` set m"
    and "set (sorted_list_of_set (writable_schemas (determine_personal_schemas spec) config)) \<subseteq> fst ` set w"
    using Cons.prems unfolding z by (simp_all add: finite_writable_schemas)
  then obtain w1 where 1: "for_each_raise (add_schema_writers role m)
          (sorted_list_of_set (writable_schemas (determine_personal_schemas spec) config)) w = Inr w1"
    using inner_ok by blast
  have "fst ` set w1 = fst ` set w" using inner_Inr [OF 1] by simp
  then have "\<forall>(role, config) \<in> set zs. role \<in> fst ` set m \<and>
             writable_schemas (determine_personal_schemas spec) config \<subseteq> fst ` set w1"
    using Cons.prems by auto
  from Cons.IH [OF this] show ?case using 1 unfolding z by simp
qed

lemma role_members_fold_keys:
  "for_each (\<lambda>(role, config) members_of_role.
        Option.bind (get_members role spec)
          (\<lambda>members. Some (AList.update role members members_of_role))) zs acc = Some m
   \<Longrightarrow> fst ` set m = fst ` set acc \<union> fst ` set zs"
proof (induction zs arbitrary: acc)
  case Nil
  then show ?case by simp
next
  case (Cons z zs)
  obtain role config where z: "z = (role, config)" by (cases z)
  from Cons.prems obtain members where
    "for_each (\<lambda>(role, config) members_of_role.
        Option.bind (get_members role spec)
          (\<lambda>members. Some (AList.update role members members_of_role))) zs
        (AList.update role members acc) = Some m"
    unfolding z by (auto split: Option.bind_splits)
  from Cons.IH [OF this] show ?case unfolding z by (auto simp: dom_update)
qed

lemma determine_role_members_keys:
  "determine_role_members spec = Some m \<Longrightarrow> fst ` set m = fst ` set spec"
  unfolding determine_role_members_def by (drule role_members_fold_keys) simp

lemma writers_seed_keys:
  "fst ` set (map (\<lambda>(schema, owner). (schema, {owner})) schema_owners) = fst ` set schema_owners"
  by force

lemma determine_schema_writers_InrD:
  assumes "determine_schema_writers spec = Some (Inr writers)"
  obtains m w where "determine_role_members spec = Some m"
    and "for_each_raise (\<lambda>(role, config) writers.
                  for_each_raise (add_schema_writers role m)
                    (sorted_list_of_set
                       (writable_schemas (determine_personal_schemas spec) config)) writers)
                spec (map (\<lambda>(schema, owner). (schema, {owner})) (determine_schema_owners spec))
           = Inr w"
    and "writers = map (\<lambda>(schema, vals). (schema, vals \<union> determine_superusers spec)) w"
proof -
  from assms obtain m where m: "determine_role_members spec = Some m"
    by (auto simp: determine_schema_writers_def)
  show thesis
  proof (cases "for_each_raise (\<lambda>(role, config) writers.
                  for_each_raise (add_schema_writers role m)
                    (sorted_list_of_set
                       (writable_schemas (determine_personal_schemas spec) config)) writers)
                spec (map (\<lambda>(schema, owner). (schema, {owner})) (determine_schema_owners spec))")
    case (Inl e)
    then show ?thesis using assms m by (simp add: determine_schema_writers_def Let_def)
  next
    case (Inr w)
    then show ?thesis using assms m that [OF m Inr]
      by (simp add: determine_schema_writers_def Let_def)
  qed
qed

text \<open>
  C8. Whenever \<^verbatim>\<open>determine_schema_writers\<close> returns a map, every role of the spec that is
  flagged \<^verbatim>\<open>is_superuser\<close> is in the writer set of every schema of the map, whoever owns
  the schema and whatever write grants the spec lists.
\<close>

theorem superusers_write_in_every_schema:
  assumes "determine_schema_writers spec = Some (Inr writers)"
    and "(schema, vals) \<in> set writers"
    and "(role, Some c) \<in> set spec"
    and "is_superuser c"
  shows "role \<in> vals"
proof -
  from assms(1) obtain w where
    writers: "writers = map (\<lambda>(schema, vals). (schema, vals \<union> determine_superusers spec)) w"
    by (rule determine_schema_writers_InrD)
  from assms(2) obtain vals0 where "vals = vals0 \<union> determine_superusers spec"
    unfolding writers by auto
  moreover have "role \<in> determine_superusers spec"
    using assms(3,4) by (auto simp: determine_superusers_iff)
  ultimately show ?thesis by simp
qed

theorem superusers_write_in_every_schema_witness:
  "determine_schema_writers spec_writers =
     Some (Inr [(''finance'', {''admin'', ''ann'', ''etl'', ''writers''}),
                (''ann'', {''admin'', ''ann'', ''writers''})])
   \<and> ''admin'' \<in> {''admin'', ''ann'', ''etl'', ''writers''}"
proof -
  have run: "determine_schema_writers spec_writers =
     Some (Inr [(''finance'', {''admin'', ''ann'', ''etl'', ''writers''}),
                (''ann'', {''admin'', ''ann'', ''writers''})])"
    by code_simp
  have "''admin'' \<in> {''admin'', ''ann'', ''etl'', ''writers''}"
    by (rule superusers_write_in_every_schema [OF run, where schema = "''finance''"
          and role = "''admin''"
          and c = "\<lparr>is_superuser = True, has_personal_schema = False, member_of = [],
                       owns = [], privileges = []\<rparr>"])
       (simp_all add: spec_writers_def)
  with run show ?thesis by simp
qed

text \<open>
  C10. \<^verbatim>\<open>determine_schema_writers\<close> returns a writer map only if every schema named in
  some role's \<^verbatim>\<open>privileges.schemas.write\<close> list, with \<^verbatim>\<open>'personal_schemas'\<close> replaced by
  the personal schemas, has a known owner: it is in the \<^verbatim>\<open>owns.schemas\<close> of a role of the
  spec or it is the personal schema of one. When such a schema has no known owner the
  function does not return: once the membership of every role is resolved, the lookup
  \<^verbatim>\<open>writers[schema]\<close> raises \<^verbatim>\<open>KeyError\<close>, which nothing catches. When every such schema
  has a known owner and the membership of every role is resolved, a map is returned.
\<close>

theorem schema_writers_need_known_owners:
  "(determine_schema_writers spec = Some (Inr writers) \<longrightarrow>
      (\<forall>schema \<in> named_writable_schemas spec. has_known_owner spec schema))
   \<and> ((\<exists>schema \<in> named_writable_schemas spec. \<not> has_known_owner spec schema) \<longrightarrow>
        determine_schema_writers spec \<noteq> Some (Inr writers) \<and>
        (determine_role_members spec = Some m \<longrightarrow>
           determine_schema_writers spec = Some (Inl KeyError)))
   \<and> ((\<forall>schema \<in> named_writable_schemas spec. has_known_owner spec schema) \<and>
        determine_role_members spec = Some m \<longrightarrow>
        (\<exists>w. determine_schema_writers spec = Some (Inr w)))"
proof -
  let ?seed = "map (\<lambda>(schema, owner). (schema, {owner})) (determine_schema_owners spec)"
  let ?loop = "\<lambda>m. for_each_raise (\<lambda>(role, config) writers.
                  for_each_raise (add_schema_writers role m)
                    (sorted_list_of_set
                       (writable_schemas (determine_personal_schemas spec) config)) writers)
                spec ?seed"
  have keys: "\<And>schema. schema \<in> fst ` set ?seed \<longleftrightarrow> has_known_owner spec schema"
    unfolding writers_seed_keys by (rule schema_owners_keys)
  have returns: "\<And>w. determine_schema_writers spec = Some (Inr w) \<Longrightarrow>
      \<forall>schema \<in> named_writable_schemas spec. has_known_owner spec schema"
  proof -
    fix w assume "determine_schema_writers spec = Some (Inr w)"
    then obtain m' w' where "?loop m' = Inr w'"
      by (rule determine_schema_writers_InrD)
    from outer_Inr [OF this]
    have "\<forall>(role, config) \<in> set spec.
            writable_schemas (determine_personal_schemas spec) config \<subseteq> fst ` set ?seed"
      by simp
    then show "\<forall>schema \<in> named_writable_schemas spec. has_known_owner spec schema"
      unfolding named_writable_schemas_def using keys by blast
  qed
  have raises: "determine_schema_writers spec = Some (Inl KeyError)"
    if missing: "\<exists>schema \<in> named_writable_schemas spec. \<not> has_known_owner spec schema"
      and m: "determine_role_members spec = Some m"
  proof (cases "?loop m")
    case (Inl e)
    then have "e = KeyError" by (rule outer_Inl)
    then show ?thesis using Inl m by (simp add: determine_schema_writers_def Let_def)
  next
    case (Inr w')
    then have "determine_schema_writers spec =
        Some (Inr (map (\<lambda>(schema, vals). (schema, vals \<union> determine_superusers spec)) w'))"
      using m by (simp add: determine_schema_writers_def Let_def)
    from returns [OF this] missing show ?thesis by blast
  qed
  have ok: "\<exists>w. determine_schema_writers spec = Some (Inr w)"
    if owned: "\<forall>schema \<in> named_writable_schemas spec. has_known_owner spec schema"
      and m: "determine_role_members spec = Some m"
  proof -
    have "\<forall>(role, config) \<in> set spec. role \<in> fst ` set m \<and>
             writable_schemas (determine_personal_schemas spec) config \<subseteq> fst ` set ?seed"
      using owned keys determine_role_members_keys [OF m]
      unfolding named_writable_schemas_def by force
    from outer_ok [OF this] obtain w' where "?loop m = Inr w'" by blast
    then show ?thesis using m by (simp add: determine_schema_writers_def Let_def)
  qed
  show ?thesis using returns raises ok by blast
qed

theorem schema_writers_need_known_owners_witness:
  "determine_schema_writers spec_writers =
     Some (Inr [(''finance'', {''admin'', ''ann'', ''etl'', ''writers''}),
                (''ann'', {''admin'', ''ann'', ''writers''})])
   \<and> has_known_owner spec_writers ''finance'' \<and> has_known_owner spec_writers ''ann''
   \<and> ''ghost'' \<in> named_writable_schemas spec_ghost
   \<and> \<not> has_known_owner spec_ghost ''ghost''
   \<and> determine_role_members spec_ghost = Some [(''etl'', {})]
   \<and> determine_schema_writers spec_ghost = Some (Inl KeyError)"
proof -
  have run: "determine_schema_writers spec_writers =
     Some (Inr [(''finance'', {''admin'', ''ann'', ''etl'', ''writers''}),
                (''ann'', {''admin'', ''ann'', ''writers''})])"
    by code_simp
  have named: "''finance'' \<in> named_writable_schemas spec_writers"
    "''ann'' \<in> named_writable_schemas spec_writers"
    by code_simp+
  have owned: "has_known_owner spec_writers ''finance'' \<and> has_known_owner spec_writers ''ann''"
    using schema_writers_need_known_owners [of spec_writers _ "[]"] run named by blast
  have ghost: "''ghost'' \<in> named_writable_schemas spec_ghost" by code_simp
  have unowned: "\<not> has_known_owner spec_ghost ''ghost''" by code_simp
  have members: "determine_role_members spec_ghost = Some [(''etl'', {})]" by code_simp
  have "determine_schema_writers spec_ghost = Some (Inl KeyError)"
    using schema_writers_need_known_owners [of spec_ghost "[]" "[(''etl'', {})]"]
      ghost unowned members by blast
  with run owned ghost unowned members show ?thesis by blast
qed


section \<open>The statements of one analyzer\<close>

lemma fold_grant_nondefault:
  "fold (\<lambda>(objname, pg_priv_kind) self. grant_nondefault self objname pg_priv_kind) xs self =
     self\<lparr>sql_to_run := sql_to_run self @
       map (\<lambda>(objname, pg_priv_kind).
              Q_GRANT_NONDEFAULT pg_priv_kind (butlast (upper (object_kind self))) objname
                (rolename self)) xs\<rparr>"
  by (induction xs arbitrary: self) (auto simp: grant_nondefault_def Let_def)

lemma fold_revoke_nondefault:
  "fold (\<lambda>(objname, pg_priv_kind) self. revoke_nondefault self objname pg_priv_kind) xs self =
     self\<lparr>sql_to_run := sql_to_run self @
       map (\<lambda>(objname, pg_priv_kind).
              Q_REVOKE_NONDEFAULT pg_priv_kind (butlast (upper (object_kind self))) objname
                (rolename self)) xs\<rparr>"
  by (induction xs arbitrary: self) (auto simp: revoke_nondefault_def Let_def)

lemma fold_grant_default:
  "fold (\<lambda>(grantor, schema, pg_priv_kind) self. grant_default self grantor schema pg_priv_kind)
       xs self =
     self\<lparr>sql_to_run := sql_to_run self @
       map (\<lambda>(grantor, schema, pg_priv_kind).
              Q_GRANT_DEFAULT grantor schema pg_priv_kind (upper (object_kind self))
                (rolename self)) xs\<rparr>"
  by (induction xs arbitrary: self) (auto simp: grant_default_def)

lemma fold_revoke_default:
  "fold (\<lambda>(grantor, schema, pg_priv_kind) self. revoke_default self grantor schema pg_priv_kind)
       xs self =
     self\<lparr>sql_to_run := sql_to_run self @
       map (\<lambda>(grantor, schema, pg_priv_kind).
              Q_REVOKE_DEFAULT grantor schema pg_priv_kind (upper (object_kind self))
                (rolename self)) xs\<rparr>"
  by (induction xs arbitrary: self) (auto simp: revoke_default_def)

lemma guarded_fold:
  "(if X \<noteq> {} then fold g (sorted_list_of_set X) s else s) = fold g (sorted_list_of_set X) s"
  by (cases "X = {}") simp_all

lemma analyze_nondefaults_eq:
  "analyze_nondefaults self =
     self\<lparr>sql_to_run := sql_to_run self @
       map (\<lambda>(objname, pg_priv_kind).
              Q_GRANT_NONDEFAULT pg_priv_kind (butlast (upper (object_kind self))) objname
                (rolename self))
           (sorted_list_of_set (desired_nondefaults self - current_nondefaults self)) @
       map (\<lambda>(objname, pg_priv_kind).
              Q_REVOKE_NONDEFAULT pg_priv_kind (butlast (upper (object_kind self))) objname
                (rolename self))
           (sorted_list_of_set (current_nondefaults self - desired_nondefaults self))\<rparr>"
  unfolding analyze_nondefaults_def Let_def guarded_fold
  by (simp add: fold_grant_nondefault fold_revoke_nondefault)

lemma analyze_defaults_eq:
  "analyze_defaults self =
     self\<lparr>sql_to_run := sql_to_run self @
       map (\<lambda>(grantor, schema, pg_priv_kind).
              Q_GRANT_DEFAULT grantor schema pg_priv_kind (upper (object_kind self))
                (rolename self))
           (sorted_list_of_set (desired_defaults self - current_defaults self)) @
       map (\<lambda>(grantor, schema, pg_priv_kind).
              Q_REVOKE_DEFAULT grantor schema pg_priv_kind (upper (object_kind self))
                (rolename self))
           (sorted_list_of_set (current_defaults self - desired_defaults self))\<rparr>"
  by (simp add: analyze_defaults_def Let_def fold_grant_default fold_revoke_default)


lemma desired_defaults_loop_frame:
  "for_each_raise (\<lambda>schema self.
         case dict_item (schema_writers self) schema of
           Inl e \<Rightarrow> Inl e
         | Inr writers \<Rightarrow>
             if writers - {rolename self} = {} then Inr self
             else (case privilege_types env self of
                     Inl e \<Rightarrow> Inl e
                   | Inr pg_priv_kinds \<Rightarrow>
                       Inr (self\<lparr>desired_defaults := desired_defaults self \<union>
                              (\<lambda>(writer, pg_priv_kind). (writer, schema, pg_priv_kind)) `
                                ((writers - {rolename self}) \<times> set pg_priv_kinds)\<rparr>)))
       schemas s = Inr s'
   \<Longrightarrow> s' = s\<lparr>desired_defaults := desired_defaults s'\<rparr>"
proof (induction schemas arbitrary: s)
  case Nil
  then show ?case by simp
next
  case (Cons schema schemas)
  from Cons.prems obtain s1 where
    1: "s1 = s \<or> (\<exists>dd. s1 = s\<lparr>desired_defaults := dd\<rparr>)"
    and 2: "for_each_raise (\<lambda>schema self.
         case dict_item (schema_writers self) schema of
           Inl e \<Rightarrow> Inl e
         | Inr writers \<Rightarrow>
             if writers - {rolename self} = {} then Inr self
             else (case privilege_types env self of
                     Inl e \<Rightarrow> Inl e
                   | Inr pg_priv_kinds \<Rightarrow>
                       Inr (self\<lparr>desired_defaults := desired_defaults self \<union>
                              (\<lambda>(writer, pg_priv_kind). (writer, schema, pg_priv_kind)) `
                                ((writers - {rolename self}) \<times> set pg_priv_kinds)\<rparr>)))
       schemas s1 = Inr s'"
    by (auto split: sum.splits if_splits simp del: Diff_eq_empty_iff)
  from Cons.IH [OF 2] have "s' = s1\<lparr>desired_defaults := desired_defaults s'\<rparr>" .
  with 1 show ?case by auto
qed

lemma determine_desired_defaults_frame:
  "determine_desired_defaults env self schemas = Inr self'
   \<Longrightarrow> self' = self\<lparr>desired_defaults := desired_defaults self'\<rparr>"
  unfolding determine_desired_defaults_def
  by (drule desired_defaults_loop_frame) simp

lemma identify_desired_objects_InrD:
  assumes "identify_desired_objects env self = Inr self'"
  obtains objs schemas priv_types where
    "for_each_raise (identify_item env self) (desired_items self) ({}, []) = Inr (objs, schemas)"
    and "privilege_types env self = Inr priv_types"
    and "(if default_acl_possible self
          then determine_desired_defaults env
             (self\<lparr>desired_nondefaults :=
                fold (\<lambda>schema objs. objs \<union> get_schema_objects env self schema) schemas objs
                  \<times> set priv_types\<rparr>) schemas
          else Inr (self\<lparr>desired_nondefaults :=
                fold (\<lambda>schema objs. objs \<union> get_schema_objects env self schema) schemas objs
                  \<times> set priv_types\<rparr>)) = Inr self'"
proof (cases "for_each_raise (identify_item env self) (desired_items self) ({}, [])")
  case (Inl e)
  then show ?thesis using assms by (simp add: identify_desired_objects_def)
next
  case (Inr st)
  obtain objs schemas where st: "st = (objs, schemas)" by (cases st)
  show ?thesis
  proof (cases "privilege_types env self")
    case (Inl e)
    then show ?thesis using assms Inr st by (simp add: identify_desired_objects_def)
  next
    case priv: (Inr priv_types)
    show ?thesis
    proof (rule that [of objs schemas priv_types])
      show "for_each_raise (identify_item env self) (desired_items self) ({}, []) = Inr (objs, schemas)"
        using Inr st by simp
      show "privilege_types env self = Inr priv_types" by (rule priv)
      show "(if default_acl_possible self
          then determine_desired_defaults env
             (self\<lparr>desired_nondefaults :=
                fold (\<lambda>schema objs. objs \<union> get_schema_objects env self schema) schemas objs
                  \<times> set priv_types\<rparr>) schemas
          else Inr (self\<lparr>desired_nondefaults :=
                fold (\<lambda>schema objs. objs \<union> get_schema_objects env self schema) schemas objs
                  \<times> set priv_types\<rparr>)) = Inr self'"
        using assms Inr st priv by (simp add: identify_desired_objects_def Let_def)
    qed
  qed
qed

lemma identify_desired_objects_frame:
  assumes "identify_desired_objects env self = Inr self'"
  shows "self' = self\<lparr>desired_nondefaults := desired_nondefaults self',
                       desired_defaults := desired_defaults self'\<rparr>"
proof -
  from assms obtain objs schemas priv_types where
    d: "(if default_acl_possible self
          then determine_desired_defaults env
             (self\<lparr>desired_nondefaults :=
                fold (\<lambda>schema objs. objs \<union> get_schema_objects env self schema) schemas objs
                  \<times> set priv_types\<rparr>) schemas
          else Inr (self\<lparr>desired_nondefaults :=
                fold (\<lambda>schema objs. objs \<union> get_schema_objects env self schema) schemas objs
                  \<times> set priv_types\<rparr>)) = Inr self'"
    by (rule identify_desired_objects_InrD)
  show ?thesis
  proof (cases "default_acl_possible self")
    case True
    with d determine_desired_defaults_frame
    obtain dd nd where "self' = self\<lparr>desired_nondefaults := nd, desired_defaults := dd\<rparr>"
      by fastforce
    then show ?thesis by simp
  next
    case False
    with d obtain nd where "self' = self\<lparr>desired_nondefaults := nd\<rparr>" by auto
    then show ?thesis by simp
  qed
qed

text \<open>
  C9. The list that \<^verbatim>\<open>analyze\<close> returns is a function of the analyzer, and it is made of
  four groups in this order, after the statements the analyzer already held (none for a
  new analyzer): the non-default grants, the non-default revokes, the default grants and
  the default revokes. Each group is the image of the sorted, duplicate-free list of the
  tuples of the corresponding difference of the desired and the current set; the two
  default groups are empty when the object kind has no default privileges.
\<close>

theorem analyze_statement_order:
  assumes "analyze env self = Inr sql"
  shows "\<exists>self' nondefaults_to_grant nondefaults_to_revoke defaults_to_grant defaults_to_revoke.
     identify_desired_objects env self = Inr self' \<and>
     nondefaults_to_grant =
       sorted_list_of_set (desired_nondefaults self' - current_nondefaults self) \<and>
     nondefaults_to_revoke =
       sorted_list_of_set (current_nondefaults self - desired_nondefaults self') \<and>
     defaults_to_grant =
       (if default_acl_possible self
        then sorted_list_of_set (desired_defaults self' - current_defaults self) else []) \<and>
     defaults_to_revoke =
       (if default_acl_possible self
        then sorted_list_of_set (current_defaults self - desired_defaults self') else []) \<and>
     sorted nondefaults_to_grant \<and> distinct nondefaults_to_grant \<and>
     sorted nondefaults_to_revoke \<and> distinct nondefaults_to_revoke \<and>
     sorted defaults_to_grant \<and> distinct defaults_to_grant \<and>
     sorted defaults_to_revoke \<and> distinct defaults_to_revoke \<and>
     sql = sql_to_run self @
       map (\<lambda>(objname, pg_priv_kind).
              Q_GRANT_NONDEFAULT pg_priv_kind (butlast (upper (object_kind self))) objname
                (rolename self)) nondefaults_to_grant @
       map (\<lambda>(objname, pg_priv_kind).
              Q_REVOKE_NONDEFAULT pg_priv_kind (butlast (upper (object_kind self))) objname
                (rolename self)) nondefaults_to_revoke @
       map (\<lambda>(grantor, schema, pg_priv_kind).
              Q_GRANT_DEFAULT grantor schema pg_priv_kind (upper (object_kind self))
                (rolename self)) defaults_to_grant @
       map (\<lambda>(grantor, schema, pg_priv_kind).
              Q_REVOKE_DEFAULT grantor schema pg_priv_kind (upper (object_kind self))
                (rolename self)) defaults_to_revoke"
proof -
  from assms obtain self' where id: "identify_desired_objects env self = Inr self'"
    by (auto simp: analyze_def split: sum.splits)
  have frame: "self' = self\<lparr>desired_nondefaults := desired_nondefaults self',
                       desired_defaults := desired_defaults self'\<rparr>"
    using id by (rule identify_desired_objects_frame)
  have fields: "sql_to_run self' = sql_to_run self" "rolename self' = rolename self"
    "object_kind self' = object_kind self" "current_nondefaults self' = current_nondefaults self"
    "current_defaults self' = current_defaults self"
    "default_acl_possible self' = default_acl_possible self"
    by (subst frame, simp)+
  show ?thesis
  proof (cases "default_acl_possible self")
    case True
    then have "sql = sql_to_run (analyze_defaults (analyze_nondefaults self'))"
      using assms id by (simp add: analyze_def Let_def analyze_nondefaults_eq fields)
    then show ?thesis
      using id True
      by (simp add: analyze_nondefaults_eq analyze_defaults_eq fields)
  next
    case False
    then have "sql = sql_to_run (analyze_nondefaults self')"
      using assms id by (simp add: analyze_def Let_def analyze_nondefaults_eq fields)
    then show ?thesis
      using id False
      by (simp add: analyze_nondefaults_eq fields)
  qed
qed

theorem analyze_statement_order_witness:
  "analyze example_modules (example_analyzer ''ann'' ''read'' ''tables'' [''finance.*'']) =
     Inr [Q_GRANT_NONDEFAULT ''SELECT'' ''TABLE'' ''finance.t1'' ''ann'',
          Q_GRANT_NONDEFAULT ''SELECT'' ''TABLE'' ''finance.t2'' ''ann'',
          Q_REVOKE_NONDEFAULT ''SELECT'' ''TABLE'' ''finance.t0'' ''ann'',
          Q_GRANT_DEFAULT ''admin'' ''finance'' ''SELECT'' ''TABLES'' ''ann'',
          Q_GRANT_DEFAULT ''etl'' ''finance'' ''SELECT'' ''TABLES'' ''ann'',
          Q_GRANT_DEFAULT ''writers'' ''finance'' ''SELECT'' ''TABLES'' ''ann'',
          Q_REVOKE_DEFAULT ''old'' ''finance'' ''SELECT'' ''TABLES'' ''ann'']
   \<and> (\<exists>self'. identify_desired_objects example_modules
          (example_analyzer ''ann'' ''read'' ''tables'' [''finance.*'']) = Inr self')"
proof -
  have run: "analyze example_modules (example_analyzer ''ann'' ''read'' ''tables'' [''finance.*'']) =
     Inr [Q_GRANT_NONDEFAULT ''SELECT'' ''TABLE'' ''finance.t1'' ''ann'',
          Q_GRANT_NONDEFAULT ''SELECT'' ''TABLE'' ''finance.t2'' ''ann'',
          Q_REVOKE_NONDEFAULT ''SELECT'' ''TABLE'' ''finance.t0'' ''ann'',
          Q_GRANT_DEFAULT ''admin'' ''finance'' ''SELECT'' ''TABLES'' ''ann'',
          Q_GRANT_DEFAULT ''etl'' ''finance'' ''SELECT'' ''TABLES'' ''ann'',
          Q_GRANT_DEFAULT ''writers'' ''finance'' ''SELECT'' ''TABLES'' ''ann'',
          Q_REVOKE_DEFAULT ''old'' ''finance'' ''SELECT'' ''TABLES'' ''ann'']"
    by code_simp
  from analyze_statement_order [OF run] run show ?thesis by blast
qed

section \<open>The errors of one analyzer\<close>

lemma messages_differ:
  "PERSONAL_SCHEMAS_ERROR_MSG a b c \<noteq> OBJECT_DOES_NOT_EXIST_ERROR_MSG x y z"
proof
  assume eq: "PERSONAL_SCHEMAS_ERROR_MSG a b c = OBJECT_DOES_NOT_EXIST_ERROR_MSG x y z"
  have "last (PERSONAL_SCHEMAS_ERROR_MSG a b c) = CHR 0x27"
    by (simp add: PERSONAL_SCHEMAS_ERROR_MSG_def)
  moreover have "last (OBJECT_DOES_NOT_EXIST_ERROR_MSG x y z) = CHR ''t''"
    by (simp add: OBJECT_DOES_NOT_EXIST_ERROR_MSG_def)
  ultimately show False using eq by simp
qed

lemma get_object_owner_Inl:
  "get_object_owner env self item None = Inl e
   \<Longrightarrow> e = Fail (OBJECT_DOES_NOT_EXIST_ERROR_MSG (butlast (object_kind self)) item (rolename self))"
  by (auto simp: get_object_owner_def Let_def split: option.splits if_splits)

lemma identify_item_Inl:
  "identify_item env self item st = Inl e \<longleftrightarrow>
     (item = ''personal_schemas'' \<and> object_kind self \<noteq> ''schemas'' \<and>
        e = Fail (PERSONAL_SCHEMAS_ERROR_MSG (rolename self) (object_kind self) (access self)))
     \<or> (singly_named item \<and>
          get_object_owner env self (ensure_quoted_identifier env item) None = Inl e)"
  by (cases st) (auto simp: identify_item_def singly_named_def Let_def split: sum.splits)

lemma identify_item_Inr_iff:
  "(\<exists>st'. identify_item env self item st = Inr st') \<longleftrightarrow>
     (item = ''personal_schemas'' \<longrightarrow> object_kind self = ''schemas'')
     \<and> (singly_named item \<longrightarrow> owner_found env self item)"
  by (cases st)
     (auto simp: identify_item_def singly_named_def owner_found_def Let_def split: sum.splits)

lemma keyword_reached_iff:
  "keyword_reached env self items \<longleftrightarrow>
     (\<exists>before after. items = before @ ''personal_schemas'' # after \<and>
        ''personal_schemas'' \<notin> set before \<and>
        (\<forall>item \<in> set before. singly_named item \<longrightarrow> owner_found env self item))"
proof -
  define k where "k = ''personal_schemas''"
  define ok where "ok = (\<lambda>item. singly_named item \<longrightarrow> owner_found env self item)"
  have nil: "\<not> keyword_reached env self []" by simp
  have cons: "\<And>item items. keyword_reached env self (item # items) \<longleftrightarrow>
      item = k \<or> (ok item \<and> keyword_reached env self items)"
    unfolding k_def ok_def by simp
  have "keyword_reached env self items \<longleftrightarrow>
     (\<exists>before after. items = before @ k # after \<and> k \<notin> set before \<and> (\<forall>item \<in> set before. ok item))"
  proof (induction items)
    case Nil
    show ?case using nil by simp
  next
    case (Cons x xs)
    show ?case
    proof (cases "x = k")
      case True
      have "x # xs = [] @ k # xs \<and> k \<notin> set [] \<and> (\<forall>item \<in> set []. ok item)"
        using True by simp
      then have "\<exists>before after. x # xs = before @ k # after \<and> k \<notin> set before \<and>
          (\<forall>item \<in> set before. ok item)"
        by blast
      then show ?thesis using True cons by simp
    next
      case False
      have "(\<exists>before after. x # xs = before @ k # after \<and> k \<notin> set before \<and>
               (\<forall>item \<in> set before. ok item))
        \<longleftrightarrow> ok x \<and> (\<exists>before after. xs = before @ k # after \<and> k \<notin> set before \<and>
               (\<forall>item \<in> set before. ok item))"
        (is "?L \<longleftrightarrow> ok x \<and> ?R")
      proof
        assume ?L
        then obtain before after where b: "x # xs = before @ k # after"
          "k \<notin> set before" "\<forall>item \<in> set before. ok item"
          by blast
        from b(1) False obtain before' where b': "before = x # before'"
          by (cases before) simp_all
        have "xs = before' @ k # after" using b(1) b' by simp
        moreover have "k \<notin> set before'" "\<forall>item \<in> set before'. ok item" "ok x"
          using b(2,3) b' by simp_all
        ultimately show "ok x \<and> ?R" by blast
      next
        assume "ok x \<and> ?R"
        then obtain before after where b: "xs = before @ k # after"
          "k \<notin> set before" "\<forall>item \<in> set before. ok item" and x: "ok x"
          by blast
        have "x # xs = (x # before) @ k # after" using b(1) by simp
        moreover have "k \<notin> set (x # before)" using b(2) False by simp
        moreover have "\<forall>item \<in> set (x # before). ok item" using b(3) x by simp
        ultimately show ?L by blast
      qed
      then show ?thesis using False Cons.IH cons by simp
    qed
  qed
  then show ?thesis unfolding k_def ok_def .
qed

lemma identify_loop_keyword:
  "for_each_raise (identify_item env self) items st =
       Inl (Fail (PERSONAL_SCHEMAS_ERROR_MSG (rolename self) (object_kind self) (access self)))
   \<longleftrightarrow> object_kind self \<noteq> ''schemas'' \<and> keyword_reached env self items"
proof (induction items arbitrary: st)
  case Nil
  show ?case by simp
next
  case (Cons x xs)
  show ?case
  proof (cases "identify_item env self x st")
    case (Inl e)
    then consider
      (kw) "x = ''personal_schemas''" "object_kind self \<noteq> ''schemas''"
        "e = Fail (PERSONAL_SCHEMAS_ERROR_MSG (rolename self) (object_kind self) (access self))"
      | (obj) "singly_named x"
        "get_object_owner env self (ensure_quoted_identifier env x) None = Inl e"
      unfolding identify_item_Inl by blast
    then show ?thesis
    proof cases
      case kw
      then show ?thesis using Inl by simp
    next
      case obj
      have "e = Fail (OBJECT_DOES_NOT_EXIST_ERROR_MSG (butlast (object_kind self))
                       (ensure_quoted_identifier env x) (rolename self))"
        by (rule get_object_owner_Inl [OF obj(2)])
      then have "e \<noteq> Fail (PERSONAL_SCHEMAS_ERROR_MSG (rolename self) (object_kind self) (access self))"
        using messages_differ [of "rolename self" "object_kind self" "access self"
                "butlast (object_kind self)" "ensure_quoted_identifier env x" "rolename self"]
        by (simp only: error.inject)
      moreover have "\<not> owner_found env self x" using obj(2) by (simp add: owner_found_def)
      moreover have "x \<noteq> ''personal_schemas''" using obj(1) by (simp add: singly_named_def)
      ultimately show ?thesis using Inl obj(1) by simp
    qed
  next
    case (Inr st1)
    then have ok: "(x = ''personal_schemas'' \<longrightarrow> object_kind self = ''schemas'')
        \<and> (singly_named x \<longrightarrow> owner_found env self x)"
      using identify_item_Inr_iff [of env self x st] by blast
    show ?thesis using Inr ok Cons.IH [of st1] by auto
  qed
qed

lemma identify_loop_objs:
  "for_each_raise (identify_item env self) items st = Inr st'
   \<Longrightarrow> fst st \<subseteq> fst st' \<and>
       (''personal_schemas'' \<in> set items \<longrightarrow> personal_schemas self \<subseteq> fst st')"
proof (induction items arbitrary: st)
  case Nil
  then show ?case by simp
next
  case (Cons x xs)
  from Cons.prems obtain st1 where 1: "identify_item env self x st = Inr st1"
    and 2: "for_each_raise (identify_item env self) xs st1 = Inr st'"
    by (auto split: sum.splits)
  have a: "fst st \<subseteq> fst st1"
    "x = ''personal_schemas'' \<longrightarrow> personal_schemas self \<subseteq> fst st1"
    using 1 by (cases st; auto simp: identify_item_def Let_def split: if_splits sum.splits)+
  show ?case using Cons.IH [OF 2] a by auto
qed

lemma fold_union_mono:
  "objs \<subseteq> fold (\<lambda>schema objs. objs \<union> f schema) schemas objs"
  by (induction schemas arbitrary: objs) (auto, blast)

lemma dict_item_Inl: "dict_item d k = Inl e \<Longrightarrow> e = KeyError"
  by (auto simp: dict_item_def split: option.splits)

lemma privilege_types_Inl: "privilege_types env self = Inl e \<Longrightarrow> e = KeyError"
  by (auto simp: privilege_types_def split: sum.splits dest: dict_item_Inl)

lemma desired_defaults_loop_Inl:
  "for_each_raise (\<lambda>schema self.
         case dict_item (schema_writers self) schema of
           Inl e \<Rightarrow> Inl e
         | Inr writers \<Rightarrow>
             if writers - {rolename self} = {} then Inr self
             else (case privilege_types env self of
                     Inl e \<Rightarrow> Inl e
                   | Inr pg_priv_kinds \<Rightarrow>
                       Inr (self\<lparr>desired_defaults := desired_defaults self \<union>
                              (\<lambda>(writer, pg_priv_kind). (writer, schema, pg_priv_kind)) `
                                ((writers - {rolename self}) \<times> set pg_priv_kinds)\<rparr>)))
       schemas s = Inl e
   \<Longrightarrow> e = KeyError"
proof (induction schemas arbitrary: s)
  case Nil
  then show ?case by simp
next
  case (Cons schema schemas)
  show ?case
  proof (cases "dict_item (schema_writers s) schema")
    case (Inl e')
    then show ?thesis using Cons.prems dict_item_Inl [OF Inl] by simp
  next
    case w: (Inr writers)
    show ?thesis
    proof (cases "writers - {rolename s} = {}")
      case True
      then show ?thesis using Cons.prems w Cons.IH [of s] by (simp del: Diff_eq_empty_iff)
    next
      case False
      show ?thesis
      proof (cases "privilege_types env s")
        case (Inl e')
        then show ?thesis
          using Cons.prems w False privilege_types_Inl [OF Inl] by (simp del: Diff_eq_empty_iff)
      next
        case (Inr privs)
        then show ?thesis
          using Cons.prems w False Cons.IH by (simp del: Diff_eq_empty_iff)
      qed
    qed
  qed
qed

lemma determine_desired_defaults_Inl:
  "determine_desired_defaults env self schemas = Inl e \<Longrightarrow> e = KeyError"
  unfolding determine_desired_defaults_def by (rule desired_defaults_loop_Inl)

lemma identify_desired_objects_Fail:
  "identify_desired_objects env self = Inl (Fail msg) \<longleftrightarrow>
     for_each_raise (identify_item env self) (desired_items self) ({}, []) = Inl (Fail msg)"
proof (cases "for_each_raise (identify_item env self) (desired_items self) ({}, [])")
  case (Inl e)
  then show ?thesis by (simp add: identify_desired_objects_def)
next
  case (Inr st)
  obtain objs schemas where st: "st = (objs, schemas)" by (cases st)
  have "identify_desired_objects env self \<noteq> Inl (Fail msg)"
  proof (cases "privilege_types env self")
    case (Inl e)
    then show ?thesis
      using Inr st privilege_types_Inl [OF Inl] by (simp add: identify_desired_objects_def)
  next
    case priv: (Inr priv_types)
    show ?thesis
    proof
      assume a: "identify_desired_objects env self = Inl (Fail msg)"
      then have "default_acl_possible self"
        using Inr st priv by (auto simp: identify_desired_objects_def Let_def split: if_splits)
      with a obtain S where
        "determine_desired_defaults env S schemas = Inl (Fail msg)"
        using Inr st priv by (auto simp: identify_desired_objects_def Let_def)
      from determine_desired_defaults_Inl [OF this] show False by simp
    qed
  qed
  then show ?thesis using Inr by simp
qed


lemma identify_desired_nondefaults:
  assumes "identify_desired_objects env self = Inr self'"
  obtains objs schemas priv_types where
    "for_each_raise (identify_item env self) (desired_items self) ({}, []) = Inr (objs, schemas)"
    and "privilege_types env self = Inr priv_types"
    and "desired_nondefaults self' =
           fold (\<lambda>schema objs. objs \<union> get_schema_objects env self schema) schemas objs
             \<times> set priv_types"
proof -
  from assms obtain objs schemas priv_types where
    l: "for_each_raise (identify_item env self) (desired_items self) ({}, []) = Inr (objs, schemas)"
    and p: "privilege_types env self = Inr priv_types"
    and d: "(if default_acl_possible self
          then determine_desired_defaults env
             (self\<lparr>desired_nondefaults :=
                fold (\<lambda>schema objs. objs \<union> get_schema_objects env self schema) schemas objs
                  \<times> set priv_types\<rparr>) schemas
          else Inr (self\<lparr>desired_nondefaults :=
                fold (\<lambda>schema objs. objs \<union> get_schema_objects env self schema) schemas objs
                  \<times> set priv_types\<rparr>)) = Inr self'"
    by (rule identify_desired_objects_InrD)
  have "desired_nondefaults self' =
           fold (\<lambda>schema objs. objs \<union> get_schema_objects env self schema) schemas objs
             \<times> set priv_types"
  proof (cases "default_acl_possible self")
    case True
    with d determine_desired_defaults_frame
    obtain dd where "self' =
        self\<lparr>desired_nondefaults :=
                fold (\<lambda>schema objs. objs \<union> get_schema_objects env self schema) schemas objs
                  \<times> set priv_types, desired_defaults := dd\<rparr>"
      by fastforce
    then show ?thesis by simp
  next
    case False
    with d show ?thesis by auto
  qed
  with l p show ?thesis by (rule that)
qed







text \<open>
  C5 (as amended). \<^verbatim>\<open>identify_desired_objects\<close> raises the impossible-keyword error if and
  only if the object kind is not \<^verbatim>\<open>'schemas'\<close>, the list contains the exact item
  \<^verbatim>\<open>'personal_schemas'\<close>, and every singly named item before its first occurrence has an
  owner in the snapshot (an earlier item without one raises the unknown-object error
  first). When the object kind is \<^verbatim>\<open>'schemas'\<close> the item does not raise: if the call
  returns, every personal schema, with every privilege name of the kind and access level,
  is in \<^verbatim>\<open>desired_nondefaults\<close>.
\<close>

theorem personal_schemas_keyword_error:
  "(identify_desired_objects env self =
       Inl (Fail (PERSONAL_SCHEMAS_ERROR_MSG (rolename self) (object_kind self) (access self)))
     \<longleftrightarrow> object_kind self \<noteq> ''schemas'' \<and>
         (\<exists>before after. desired_items self = before @ ''personal_schemas'' # after \<and>
            ''personal_schemas'' \<notin> set before \<and>
            (\<forall>item \<in> set before. singly_named item \<longrightarrow> owner_found env self item)))
   \<and> (object_kind self = ''schemas'' \<and> ''personal_schemas'' \<in> set (desired_items self) \<and>
        identify_desired_objects env self = Inr self' \<and>
        privilege_types env self = Inr priv_types
        \<longrightarrow> personal_schemas self \<times> set priv_types \<subseteq> desired_nondefaults self')"
proof
  show "identify_desired_objects env self =
       Inl (Fail (PERSONAL_SCHEMAS_ERROR_MSG (rolename self) (object_kind self) (access self)))
     \<longleftrightarrow> object_kind self \<noteq> ''schemas'' \<and>
         (\<exists>before after. desired_items self = before @ ''personal_schemas'' # after \<and>
            ''personal_schemas'' \<notin> set before \<and>
            (\<forall>item \<in> set before. singly_named item \<longrightarrow> owner_found env self item))"
    unfolding identify_desired_objects_Fail identify_loop_keyword keyword_reached_iff ..
  show "object_kind self = ''schemas'' \<and> ''personal_schemas'' \<in> set (desired_items self) \<and>
        identify_desired_objects env self = Inr self' \<and>
        privilege_types env self = Inr priv_types
        \<longrightarrow> personal_schemas self \<times> set priv_types \<subseteq> desired_nondefaults self'"
  proof
    assume a: "object_kind self = ''schemas'' \<and> ''personal_schemas'' \<in> set (desired_items self) \<and>
        identify_desired_objects env self = Inr self' \<and>
        privilege_types env self = Inr priv_types"
    then obtain objs schemas pt where
      l: "for_each_raise (identify_item env self) (desired_items self) ({}, []) = Inr (objs, schemas)"
      and p: "privilege_types env self = Inr pt"
      and d: "desired_nondefaults self' =
           fold (\<lambda>schema objs. objs \<union> get_schema_objects env self schema) schemas objs
             \<times> set pt"
      using identify_desired_nondefaults [of env self self'] by blast
    have pt: "pt = priv_types" using a p by simp
    have "personal_schemas self \<subseteq> objs"
      using identify_loop_objs [OF l] a by simp
    also have "objs \<subseteq> fold (\<lambda>schema objs. objs \<union> get_schema_objects env self schema) schemas objs"
      by (rule fold_union_mono)
    finally show "personal_schemas self \<times> set priv_types \<subseteq> desired_nondefaults self'"
      unfolding d pt by blast
  qed
qed


theorem personal_schemas_keyword_error_witness:
  "identify_desired_objects example_modules
      (example_analyzer ''ann'' ''read'' ''tables'' [''finance.t1'', ''personal_schemas'']) =
     Inl (Fail (PERSONAL_SCHEMAS_ERROR_MSG ''ann'' ''tables'' ''read''))
   \<and> owner_found example_modules
        (example_analyzer ''ann'' ''read'' ''tables'' [''finance.t1'', ''personal_schemas''])
        ''finance.t1''
   \<and> (\<exists>self'. identify_desired_objects example_modules
          (example_analyzer ''ann'' ''read'' ''schemas'' [''personal_schemas'']) = Inr self' \<and>
        {''ann''} \<times> {''USAGE''} \<subseteq> desired_nondefaults self')"
proof -
  let ?A1 = "example_analyzer ''ann'' ''read'' ''tables'' [''finance.t1'', ''personal_schemas'']"
  let ?A2 = "example_analyzer ''ann'' ''read'' ''schemas'' [''personal_schemas'']"
  have fields1: "rolename ?A1 = ''ann''" "object_kind ?A1 = ''tables''" "access ?A1 = ''read''"
    "desired_items ?A1 = [''finance.t1''] @ ''personal_schemas'' # []"
    by (simp_all add: example_analyzer_def)
  have found: "owner_found example_modules ?A1 ''finance.t1''" by code_simp
  have kind1: "object_kind ?A1 \<noteq> ''schemas''" unfolding fields1 by simp
  have before: "''personal_schemas'' \<notin> set [''finance.t1'']" by simp
  have "\<exists>before after. desired_items ?A1 = before @ ''personal_schemas'' # after \<and>
            ''personal_schemas'' \<notin> set before \<and>
            (\<forall>item \<in> set before. singly_named item \<longrightarrow> owner_found example_modules ?A1 item)"
    using fields1(4) before found by (intro exI [of _ "[''finance.t1'']"] exI [of _ "[]"]) simp
  with kind1 have 1: "identify_desired_objects example_modules ?A1 =
     Inl (Fail (PERSONAL_SCHEMAS_ERROR_MSG ''ann'' ''tables'' ''read''))"
    using personal_schemas_keyword_error [of example_modules ?A1] unfolding fields1(1,2,3)
    by blast
  have fields2: "object_kind ?A2 = ''schemas''" "desired_items ?A2 = [''personal_schemas'']"
    "personal_schemas ?A2 = {''ann''}"
    by (simp_all add: example_analyzer_def)
  have "isl (identify_desired_objects example_modules ?A2) = False" by code_simp
  then obtain self' where ret: "identify_desired_objects example_modules ?A2 = Inr self'"
    by (cases "identify_desired_objects example_modules ?A2") simp_all
  have pt: "privilege_types example_modules ?A2 = Inr [''USAGE'']" by code_simp
  have "personal_schemas ?A2 \<times> set [''USAGE''] \<subseteq> desired_nondefaults self'"
    using personal_schemas_keyword_error [of example_modules ?A2 self' "[''USAGE'']"]
      ret pt fields2 by simp
  then have 2: "{''ann''} \<times> {''USAGE''} \<subseteq> desired_nondefaults self'"
    unfolding fields2 by simp
  from 1 found ret 2 show ?thesis by blast
qed

text \<open>
  C5 (as stated) fails: the table-level list \<^verbatim>\<open>['ghost.t', 'personal_schemas']\<close> contains
  the keyword and the kind is not \<^verbatim>\<open>'schemas'\<close>, yet the error raised is the
  unknown-object error of the first item.
\<close>

theorem personal_schemas_keyword_error_counterexample:
  "''personal_schemas'' \<in> set (desired_items
       (example_analyzer ''ann'' ''read'' ''tables'' [''ghost.t'', ''personal_schemas'']))
   \<and> object_kind (example_analyzer ''ann'' ''read'' ''tables'' [''ghost.t'', ''personal_schemas''])
       \<noteq> ''schemas''
   \<and> identify_desired_objects example_modules
        (example_analyzer ''ann'' ''read'' ''tables'' [''ghost.t'', ''personal_schemas'']) =
       Inl (Fail (OBJECT_DOES_NOT_EXIST_ERROR_MSG ''table'' ''ghost.t'' ''ann''))
   \<and> OBJECT_DOES_NOT_EXIST_ERROR_MSG ''table'' ''ghost.t'' ''ann''
       \<noteq> PERSONAL_SCHEMAS_ERROR_MSG ''ann'' ''tables'' ''read''"
  by code_simp

text \<open>
  C6, evaluated at a failing input: role \<^verbatim>\<open>ann\<close> has a personal schema, which it owns in
  the snapshot, and asks for read access to \<^verbatim>\<open>personal_schemas\<close>. The analyzer resolves
  the owner of the schema \<^verbatim>\<open>ann\<close> to the role itself, and still puts the schema in
  \<^verbatim>\<open>desired_nondefaults\<close>: the branch of the keyword adds every personal schema without
  the owner test that the other two branches make.
\<close>

theorem personal_schemas_keyword_keeps_own_schema:
  "map_sum id desired_nondefaults
     (identify_desired_objects example_modules
        (example_analyzer ''ann'' ''read'' ''schemas'' [''personal_schemas'']))
     = Inr {(''ann'', ''USAGE'')}
   \<and> get_object_owner example_modules
        (example_analyzer ''ann'' ''read'' ''schemas'' [''personal_schemas'']) ''ann'' None
       = Inr ''ann''
   \<and> rolename (example_analyzer ''ann'' ''read'' ''schemas'' [''personal_schemas'']) = ''ann''
   \<and> analyze example_modules
        (example_analyzer ''ann'' ''read'' ''schemas'' [''personal_schemas''])
       = Inr [Q_GRANT_NONDEFAULT ''USAGE'' ''SCHEMA'' ''ann'' ''ann'']"
  by code_simp

section \<open>The run over a spec\<close>

lemma new_PrivilegeAnalyzer_items:
  "new_PrivilegeAnalyzer env r a k items sw ps db = Inr conf \<Longrightarrow> desired_items conf = items"
  by (auto simp: new_PrivilegeAnalyzer_def Let_def split: sum.splits)

lemma dict_get_update_other:
  "k' \<noteq> k \<Longrightarrow> dict_get (AList.update k v d) k' dflt = dict_get d k' dflt"
  by (simp add: dict_get_def update_conv')

lemma dict_get_update_same: "dict_get (AList.update k v d) k dflt = v"
  by (simp add: dict_get_def update_conv')

lemma get_desired_items_read:
  "fst (get_desired_items ''read'' d) = dict_get d ''read'' [] @ dict_get d ''write'' []"
  by (auto simp: get_desired_items_def dict_get_def Let_def split: option.splits)

lemma get_desired_items_write:
  "get_desired_items ''write'' d = (dict_get d ''write'' [], d)"
  by (simp add: get_desired_items_def)



text \<open>
  C3, evaluated at a failing input: role \<^verbatim>\<open>ann\<close> lists \<^verbatim>\<open>finance.t1\<close> under the read
  access of tables and \<^verbatim>\<open>finance.t2\<close> under the write access. After the run the read list
  of the spec holds both items.
\<close>

theorem analyze_privileges_extends_read_list:
  "map_option (map_sum id snd)
     (analyze_privileges example_modules example_context spec_read_write) =
     Some (Inr
       [(''admin'', Some \<lparr>is_superuser = True, has_personal_schema = False, member_of = [],
                       owns = [], privileges = []\<rparr>),
        (''etl'', Some \<lparr>is_superuser = False, has_personal_schema = False, member_of = [],
                     owns = [(''schemas'', [''finance''])], privileges = []\<rparr>),
        (''ann'', Some \<lparr>is_superuser = False, has_personal_schema = False, member_of = [],
                     owns = [],
                     privileges = [(''tables'', [(''read'', [''finance.t1'', ''finance.t2'']),
                                                 (''write'', [''finance.t2''])])]\<rparr>)])
   \<and> map_option (map_sum id snd)
       (analyze_privileges example_modules example_context spec_read_write)
       \<noteq> Some (Inr spec_read_write)"
  by code_simp


section \<open>The desired sets as functions of the set of items\<close>

lemma identify_item_Inr:
  assumes "identify_item env self item (objs, schemas) = Inr (objs', schemas')"
    and "finite (personal_schemas self)"
  shows "objs' = objs \<union> item_objects env self item
         \<and> set schemas' = set schemas \<union> item_schemas self item"
proof -
  define kw where "kw = ''personal_schemas''"
  define kws where "kws = ''personal_schemas.*''"
  have neq: "kw \<noteq> kws" unfolding kw_def kws_def by simp
  have nsuf: "\<not> suffix ''.*'' kw" unfolding kw_def by code_simp
  consider (a) "item = kw" | (b) "item \<noteq> kw" "item = kws"
    | (c) "item \<noteq> kw" "item \<noteq> kws" "\<not> suffix ''.*'' item"
    | (d) "item \<noteq> kw" "item \<noteq> kws" "suffix ''.*'' item"
    by blast
  then show ?thesis
  proof cases
    case a
    then show ?thesis
      using assms(1) nsuf neq
      unfolding identify_item_def item_objects_def item_schemas_def singly_named_def
        kw_def [symmetric] kws_def [symmetric]
      by (auto split: if_splits)
  next
    case b
    then show ?thesis
      using assms neq
      unfolding identify_item_def item_objects_def item_schemas_def singly_named_def
        kw_def [symmetric] kws_def [symmetric]
      by (auto split: if_splits)
  next
    case c
    then show ?thesis
      using assms(1)
      unfolding identify_item_def item_objects_def item_schemas_def singly_named_def
        kw_def [symmetric] kws_def [symmetric]
      by (auto simp: Let_def split: if_splits sum.splits)
  next
    case d
    then show ?thesis
      using assms(1)
      unfolding identify_item_def item_objects_def item_schemas_def singly_named_def
        kw_def [symmetric] kws_def [symmetric]
      by (auto split: if_splits)
  qed
qed

lemma identify_loop_result:
  assumes "for_each_raise (identify_item env self) items (objs, schemas) = Inr (objs', schemas')"
    and "finite (personal_schemas self)"
  shows "objs' = objs \<union> (\<Union>item \<in> set items. item_objects env self item)
         \<and> set schemas' = set schemas \<union> (\<Union>item \<in> set items. item_schemas self item)"
  using assms(1)
proof (induction items arbitrary: objs schemas)
  case Nil
  then show ?case by simp
next
  case (Cons x xs)
  from Cons.prems obtain o1 s1 where 1: "identify_item env self x (objs, schemas) = Inr (o1, s1)"
    and 2: "for_each_raise (identify_item env self) xs (o1, s1) = Inr (objs', schemas')"
    by (auto split: sum.splits)
  from identify_item_Inr [OF 1 assms(2)] Cons.IH [OF 2] show ?case by auto
qed

lemma identify_loop_succeeds_iff:
  "(\<exists>st'. for_each_raise (identify_item env self) items st = Inr st') \<longleftrightarrow>
     (\<forall>item \<in> set items.
        (item = ''personal_schemas'' \<longrightarrow> object_kind self = ''schemas'')
        \<and> (singly_named item \<longrightarrow> owner_found env self item))"
proof (induction items arbitrary: st)
  case Nil
  show ?case by simp
next
  case (Cons x xs)
  show ?case
  proof (cases "identify_item env self x st")
    case (Inl e)
    then have "\<not> (\<exists>st'. identify_item env self x st = Inr st')" by simp
    then have "\<not> ((x = ''personal_schemas'' \<longrightarrow> object_kind self = ''schemas'')
        \<and> (singly_named x \<longrightarrow> owner_found env self x))"
      unfolding identify_item_Inr_iff .
    then show ?thesis using Inl by auto
  next
    case (Inr st1)
    then have "\<exists>st'. identify_item env self x st = Inr st'" by simp
    then have "(x = ''personal_schemas'' \<longrightarrow> object_kind self = ''schemas'')
        \<and> (singly_named x \<longrightarrow> owner_found env self x)"
      unfolding identify_item_Inr_iff .
    then show ?thesis using Inr Cons.IH [of st1] by simp
  qed
qed

lemma fold_union_eq:
  "fold (\<lambda>schema objs. objs \<union> f schema) schemas objs = objs \<union> (\<Union>schema \<in> set schemas. f schema)"
  by (induction schemas arbitrary: objs) auto

lemma privilege_types_cong:
  "object_kind c2 = object_kind c1 \<Longrightarrow> access c2 = access c1
   \<Longrightarrow> privilege_types env c2 = privilege_types env c1"
  by (simp add: privilege_types_def cong: sum.case_cong)

lemma privilege_types_desired_defaults [simp]:
  "privilege_types env (s\<lparr>desired_defaults := D\<rparr>) = privilege_types env s"
  by (rule privilege_types_cong) simp_all

lemma privilege_types_desired_nondefaults [simp]:
  "privilege_types env (s\<lparr>desired_nondefaults := D\<rparr>) = privilege_types env s"
  by (rule privilege_types_cong) simp_all

lemma desired_defaults_loop_eq:
  assumes "privilege_types env s = Inr pt"
  shows "for_each_raise (\<lambda>schema self.
         case dict_item (schema_writers self) schema of
           Inl e \<Rightarrow> Inl e
         | Inr writers \<Rightarrow>
             if writers - {rolename self} = {} then Inr self
             else (case privilege_types env self of
                     Inl e \<Rightarrow> Inl e
                   | Inr pg_priv_kinds \<Rightarrow>
                       Inr (self\<lparr>desired_defaults := desired_defaults self \<union>
                              (\<lambda>(writer, pg_priv_kind). (writer, schema, pg_priv_kind)) `
                                ((writers - {rolename self}) \<times> set pg_priv_kinds)\<rparr>)))
       schemas s =
     (if \<forall>schema \<in> set schemas. schema \<in> fst ` set (schema_writers s)
      then Inr (s\<lparr>desired_defaults := desired_defaults s \<union>
              (\<Union>schema \<in> set schemas.
                 (\<lambda>(writer, pg_priv_kind). (writer, schema, pg_priv_kind)) `
                   ((dict_get (schema_writers s) schema {} - {rolename s}) \<times> set pt))\<rparr>)
      else Inl KeyError)"
  using assms
proof (induction schemas arbitrary: s)
  case Nil
  show ?case by simp
next
  case (Cons x xs)
  show ?case
  proof (cases "map_of (schema_writers s) x")
    case None
    then have "x \<notin> fst ` set (schema_writers s)" by (simp add: map_of_eq_None_iff)
    then show ?thesis using None by (simp add: dict_item_def)
  next
    case (Some writers)
    then have x: "x \<in> fst ` set (schema_writers s)"
      by (metis map_of_SomeD image_eqI fst_conv)
    have g: "dict_get (schema_writers s) x {} = writers" using Some by (simp add: dict_get_def)
    define s1 where "s1 = (if writers - {rolename s} = {} then s
        else s\<lparr>desired_defaults := desired_defaults s \<union>
                (\<lambda>(writer, pg_priv_kind). (writer, x, pg_priv_kind)) `
                   ((writers - {rolename s}) \<times> set pt)\<rparr>)"
    have s1: "schema_writers s1 = schema_writers s" "rolename s1 = rolename s"
      "privilege_types env s1 = Inr pt"
      "desired_defaults s1 = desired_defaults s \<union>
                (\<lambda>(writer, pg_priv_kind). (writer, x, pg_priv_kind)) `
                   ((writers - {rolename s}) \<times> set pt)"
      "s1\<lparr>desired_defaults := D\<rparr> = s\<lparr>desired_defaults := D\<rparr>" for D
      using Cons.prems unfolding s1_def
      by (auto simp del: Diff_eq_empty_iff)
    have step: "(case dict_item (schema_writers s) x of
           Inl e \<Rightarrow> Inl e
         | Inr writers \<Rightarrow>
             if writers - {rolename s} = {} then Inr s
             else (case privilege_types env s of
                     Inl e \<Rightarrow> Inl e
                   | Inr pg_priv_kinds \<Rightarrow>
                       Inr (s\<lparr>desired_defaults := desired_defaults s \<union>
                              (\<lambda>(writer, pg_priv_kind). (writer, x, pg_priv_kind)) `
                                ((writers - {rolename s}) \<times> set pg_priv_kinds)\<rparr>))) = Inr s1"
      using Some Cons.prems unfolding s1_def
      by (simp add: dict_item_def del: Diff_eq_empty_iff)
    show ?thesis
      unfolding for_each_raise.simps step sum.case Cons.IH [OF s1(3)] s1(1,2,4,5)
      using x g by (simp add: Un_assoc)
  qed
qed

lemma determine_desired_defaults_eq:
  assumes "privilege_types env self = Inr pt"
  shows "determine_desired_defaults env self schemas =
     (if \<forall>schema \<in> set schemas. schema \<in> fst ` set (schema_writers self)
      then Inr (self\<lparr>desired_defaults :=
              (\<Union>schema \<in> set schemas.
                 (\<lambda>(writer, pg_priv_kind). (writer, schema, pg_priv_kind)) `
                   ((dict_get (schema_writers self) schema {} - {rolename self}) \<times> set pt))\<rparr>)
      else Inl KeyError)"
proof -
  have "privilege_types env (self\<lparr>desired_defaults := {}\<rparr>) = Inr pt"
    using assms by simp
  from desired_defaults_loop_eq [OF this, of schemas]
  show ?thesis unfolding determine_desired_defaults_def by simp
qed

lemma get_object_owner_upd:
  "get_object_owner env (c\<lparr>desired_items := i, current_defaults := cd, current_nondefaults := cn\<rparr>)
     item k = get_object_owner env c item k"
  by (simp add: get_object_owner_def Let_def cong: option.case_cong if_cong)

lemma owner_found_upd:
  "owner_found env (c\<lparr>desired_items := i, current_defaults := cd, current_nondefaults := cn\<rparr>) item
     = owner_found env c item"
  by (simp add: owner_found_def get_object_owner_upd)

lemma item_objects_upd:
  "item_objects env (c\<lparr>desired_items := i, current_defaults := cd, current_nondefaults := cn\<rparr>) item
     = item_objects env c item"
  by (simp add: item_objects_def get_object_owner_upd cong: sum.case_cong if_cong)

lemma item_schemas_upd:
  "item_schemas (c\<lparr>desired_items := i, current_defaults := cd, current_nondefaults := cn\<rparr>) item
     = item_schemas c item"
  by (simp add: item_schemas_def)

lemma get_schema_objects_upd:
  "get_schema_objects env
     (c\<lparr>desired_items := i, current_defaults := cd, current_nondefaults := cn\<rparr>) schema
     = get_schema_objects env c schema"
  by (simp add: get_schema_objects_def Let_def)

lemma get_schema_objects_nd [simp]:
  "get_schema_objects env (c\<lparr>desired_nondefaults := D\<rparr>) schema = get_schema_objects env c schema"
  by (simp add: get_schema_objects_def Let_def)

lemma privilege_types_upd:
  "privilege_types env
     (c\<lparr>desired_items := i, current_defaults := cd, current_nondefaults := cn\<rparr>)
     = privilege_types env c"
  by (rule privilege_types_cong) simp_all

lemma finite_get_schema_objects: "finite (get_schema_objects env c schema)"
  by (simp add: get_schema_objects_def Let_def)

lemma finite_item_objects: "finite (personal_schemas c) \<Longrightarrow> finite (item_objects env c item)"
  by (auto simp: item_objects_def split: sum.splits)

lemma finite_item_schemas: "finite (personal_schemas c) \<Longrightarrow> finite (item_schemas c item)"
  by (auto simp: item_schemas_def)

text \<open>What \<^verbatim>\<open>identify_desired_objects\<close> computes, when it returns.\<close>

lemma identify_desired_objects_result:
  assumes ret: "identify_desired_objects env c = Inr c'"
    and fin: "finite (personal_schemas c)"
  shows "(\<forall>item \<in> set (desired_items c).
            (item = ''personal_schemas'' \<longrightarrow> object_kind c = ''schemas'')
            \<and> (singly_named item \<longrightarrow> owner_found env c item))
    \<and> (\<exists>pt. privilege_types env c = Inr pt \<and>
          desired_nondefaults c' =
            ((\<Union>item \<in> set (desired_items c). item_objects env c item) \<union>
             (\<Union>schema \<in> (\<Union>item \<in> set (desired_items c). item_schemas c item).
                get_schema_objects env c schema)) \<times> set pt \<and>
          (default_acl_possible c \<longrightarrow>
             (\<Union>item \<in> set (desired_items c). item_schemas c item) \<subseteq> fst ` set (schema_writers c) \<and>
             desired_defaults c' =
               (\<Union>schema \<in> (\<Union>item \<in> set (desired_items c). item_schemas c item).
                 (\<lambda>(writer, pg_priv_kind). (writer, schema, pg_priv_kind)) `
                   ((dict_get (schema_writers c) schema {} - {rolename c}) \<times> set pt))))"
proof -
  from ret obtain objs schemas pt where
    l: "for_each_raise (identify_item env c) (desired_items c) ({}, []) = Inr (objs, schemas)"
    and p: "privilege_types env c = Inr pt"
    and d: "(if default_acl_possible c
          then determine_desired_defaults env
             (c\<lparr>desired_nondefaults :=
                fold (\<lambda>schema objs. objs \<union> get_schema_objects env c schema) schemas objs
                  \<times> set pt\<rparr>) schemas
          else Inr (c\<lparr>desired_nondefaults :=
                fold (\<lambda>schema objs. objs \<union> get_schema_objects env c schema) schemas objs
                  \<times> set pt\<rparr>)) = Inr c'"
    by (rule identify_desired_objects_InrD)
  have pass: "\<forall>item \<in> set (desired_items c).
            (item = ''personal_schemas'' \<longrightarrow> object_kind c = ''schemas'')
            \<and> (singly_named item \<longrightarrow> owner_found env c item)"
    using l identify_loop_succeeds_iff [of env c "desired_items c" "({}, [])"] by blast
  have os: "objs = (\<Union>item \<in> set (desired_items c). item_objects env c item)"
    "set schemas = (\<Union>item \<in> set (desired_items c). item_schemas c item)"
    using identify_loop_result [OF l fin] by simp_all
  let ?nd = "fold (\<lambda>schema objs. objs \<union> get_schema_objects env c schema) schemas objs
                  \<times> set pt"
  have nd: "?nd = ((\<Union>item \<in> set (desired_items c). item_objects env c item) \<union>
             (\<Union>schema \<in> (\<Union>item \<in> set (desired_items c). item_schemas c item).
                get_schema_objects env c schema)) \<times> set pt"
    unfolding fold_union_eq os ..
  show ?thesis
  proof (cases "default_acl_possible c")
    case False
    then have "c' = c\<lparr>desired_nondefaults := ?nd\<rparr>" using d by simp
    then have "desired_nondefaults c' = ?nd" by simp
    then show ?thesis using pass p nd False by auto
  next
    case True
    have p': "privilege_types env (c\<lparr>desired_nondefaults := ?nd\<rparr>) = Inr pt" using p by simp
    from d True have dd: "determine_desired_defaults env (c\<lparr>desired_nondefaults := ?nd\<rparr>) schemas
        = Inr c'" by simp
    have keys: "\<forall>schema \<in> set schemas. schema \<in> fst ` set (schema_writers c)"
      using dd unfolding determine_desired_defaults_eq [OF p'] by (simp split: if_splits)
    then have c': "c' = c\<lparr>desired_nondefaults := ?nd, desired_defaults :=
              (\<Union>schema \<in> set schemas.
                 (\<lambda>(writer, pg_priv_kind). (writer, schema, pg_priv_kind)) `
                   ((dict_get (schema_writers c) schema {} - {rolename c}) \<times> set pt))\<rparr>"
      using dd unfolding determine_desired_defaults_eq [OF p'] by simp
    have "desired_nondefaults c' = ?nd" unfolding c' by simp
    moreover have "desired_defaults c' = (\<Union>schema \<in> set schemas.
                 (\<lambda>(writer, pg_priv_kind). (writer, schema, pg_priv_kind)) `
                   ((dict_get (schema_writers c) schema {} - {rolename c}) \<times> set pt))"
      unfolding c' by simp
    ultimately show ?thesis using pass p nd keys unfolding os by auto
  qed
qed

lemma identify_desired_objects_returns:
  assumes pass: "\<forall>item \<in> set (desired_items c).
            (item = ''personal_schemas'' \<longrightarrow> object_kind c = ''schemas'')
            \<and> (singly_named item \<longrightarrow> owner_found env c item)"
    and p: "privilege_types env c = Inr pt"
    and keys: "default_acl_possible c \<longrightarrow>
        (\<Union>item \<in> set (desired_items c). item_schemas c item) \<subseteq> fst ` set (schema_writers c)"
    and fin: "finite (personal_schemas c)"
  shows "\<exists>c'. identify_desired_objects env c = Inr c'"
proof -
  from pass obtain st where "for_each_raise (identify_item env c) (desired_items c) ({}, []) = Inr st"
    using identify_loop_succeeds_iff [of env c "desired_items c" "({}, [])"] by blast
  then obtain objs schemas where
    l: "for_each_raise (identify_item env c) (desired_items c) ({}, []) = Inr (objs, schemas)"
    by (cases st) simp
  have s: "set schemas = (\<Union>item \<in> set (desired_items c). item_schemas c item)"
    using identify_loop_result [OF l fin] by simp
  let ?c = "c\<lparr>desired_nondefaults :=
                fold (\<lambda>schema objs. objs \<union> get_schema_objects env c schema) schemas objs
                  \<times> set pt\<rparr>"
  have p': "privilege_types env ?c = Inr pt" using p by simp
  show ?thesis
  proof (cases "default_acl_possible c")
    case False
    then show ?thesis using l p by (simp add: identify_desired_objects_def Let_def)
  next
    case True
    then have "\<forall>schema \<in> set schemas. schema \<in> fst ` set (schema_writers ?c)"
      using keys s by auto
    then have "\<exists>c'. determine_desired_defaults env ?c schemas = Inr c'"
      unfolding determine_desired_defaults_eq [OF p'] by simp
    then show ?thesis using l p True by (simp add: identify_desired_objects_def Let_def)
  qed
qed

lemma items_pass_upd:
  "items_pass env (c\<lparr>desired_items := i, current_defaults := cd, current_nondefaults := cn\<rparr>) S
     = items_pass env c S"
  by (simp add: items_pass_def owner_found_upd)

lemma wildcard_schemas_upd:
  "wildcard_schemas (c\<lparr>desired_items := i, current_defaults := cd, current_nondefaults := cn\<rparr>) S
     = wildcard_schemas c S"
  by (simp add: wildcard_schemas_def item_schemas_upd)

lemma wanted_objects_upd:
  "wanted_objects env (c\<lparr>desired_items := i, current_defaults := cd, current_nondefaults := cn\<rparr>) S
     = wanted_objects env c S"
  unfolding wanted_objects_def wildcard_schemas_upd item_objects_upd get_schema_objects_upd ..

lemma wanted_defaults_upd:
  "wanted_defaults (c\<lparr>desired_items := i, current_defaults := cd, current_nondefaults := cn\<rparr>) S pt
     = wanted_defaults c S pt"
  unfolding wanted_defaults_def wildcard_schemas_upd by simp

lemma identify_result_pass:
  assumes "identify_desired_objects env c = Inr c'" "finite (personal_schemas c)"
  shows "items_pass env c (set (desired_items c))"
  using identify_desired_objects_result [OF assms] unfolding items_pass_def by (rule conjunct1)

lemma identify_result_sets:
  assumes "identify_desired_objects env c = Inr c'" "finite (personal_schemas c)"
  obtains pt where "privilege_types env c = Inr pt"
    and "desired_nondefaults c' = wanted_objects env c (set (desired_items c)) \<times> set pt"
    and "default_acl_possible c \<longrightarrow>
           wildcard_schemas c (set (desired_items c)) \<subseteq> fst ` set (schema_writers c)"
    and "default_acl_possible c \<longrightarrow>
           desired_defaults c' = wanted_defaults c (set (desired_items c)) pt"
proof -
  from identify_desired_objects_result [OF assms]
  have "\<exists>pt. privilege_types env c = Inr pt \<and>
          desired_nondefaults c' = wanted_objects env c (set (desired_items c)) \<times> set pt \<and>
          (default_acl_possible c \<longrightarrow>
             wildcard_schemas c (set (desired_items c)) \<subseteq> fst ` set (schema_writers c) \<and>
             desired_defaults c' = wanted_defaults c (set (desired_items c)) pt)"
    unfolding wanted_objects_def wanted_defaults_def wildcard_schemas_def by (rule conjunct2)
  then obtain pt where 1: "privilege_types env c = Inr pt"
    and 2: "desired_nondefaults c' = wanted_objects env c (set (desired_items c)) \<times> set pt"
    and 3: "default_acl_possible c \<longrightarrow>
             wildcard_schemas c (set (desired_items c)) \<subseteq> fst ` set (schema_writers c) \<and>
             desired_defaults c' = wanted_defaults c (set (desired_items c)) pt"
    by (elim exE conjE)
  show thesis
  proof (rule that [OF 1 2])
    show "default_acl_possible c \<longrightarrow>
        wildcard_schemas c (set (desired_items c)) \<subseteq> fst ` set (schema_writers c)"
      using 3 by (intro impI) (elim impE conjE, assumption)
    show "default_acl_possible c \<longrightarrow>
        desired_defaults c' = wanted_defaults c (set (desired_items c)) pt"
      using 3 by (intro impI) (elim impE conjE, assumption)
  qed
qed

lemma identify_result_no_defaults:
  assumes "identify_desired_objects env c = Inr c'" "\<not> default_acl_possible c"
  shows "desired_defaults c' = desired_defaults c"
proof -
  from assms(1) obtain objs schemas pt where
    "(if default_acl_possible c
          then determine_desired_defaults env
             (c\<lparr>desired_nondefaults :=
                fold (\<lambda>schema objs. objs \<union> get_schema_objects env c schema) schemas objs
                  \<times> set pt\<rparr>) schemas
          else Inr (c\<lparr>desired_nondefaults :=
                fold (\<lambda>schema objs. objs \<union> get_schema_objects env c schema) schemas objs
                  \<times> set pt\<rparr>)) = Inr c'"
    by (rule identify_desired_objects_InrD)
  then have "c' = c\<lparr>desired_nondefaults :=
                fold (\<lambda>schema objs. objs \<union> get_schema_objects env c schema) schemas objs
                  \<times> set pt\<rparr>"
    using assms(2) by simp
  then show ?thesis by simp
qed

lemma identify_returns:
  assumes "items_pass env c (set (desired_items c))"
    and "privilege_types env c = Inr pt"
    and "default_acl_possible c \<Longrightarrow>
           wildcard_schemas c (set (desired_items c)) \<subseteq> fst ` set (schema_writers c)"
    and "finite (personal_schemas c)"
  shows "\<exists>c'. identify_desired_objects env c = Inr c'"
proof (rule identify_desired_objects_returns [OF _ assms(2) _ assms(4)])
  show "\<forall>item \<in> set (desired_items c).
            (item = ''personal_schemas'' \<longrightarrow> object_kind c = ''schemas'')
            \<and> (singly_named item \<longrightarrow> owner_found env c item)"
    using assms(1) unfolding items_pass_def .
  show "default_acl_possible c \<longrightarrow>
        (\<Union>item \<in> set (desired_items c). item_schemas c item) \<subseteq> fst ` set (schema_writers c)"
    using assms(3) unfolding wildcard_schemas_def by (rule impI)
qed

lemma identify_desired_objects_upd:
  assumes ret: "identify_desired_objects env c = Inr c'"
    and fin: "finite (personal_schemas c)"
    and items: "set i = set (desired_items c)"
  shows "identify_desired_objects env
           (c\<lparr>desired_items := i, current_defaults := cd, current_nondefaults := cn\<rparr>)
         = Inr (c'\<lparr>desired_items := i, current_defaults := cd, current_nondefaults := cn\<rparr>)"
proof -
  define c2 where "c2 = c\<lparr>desired_items := i, current_defaults := cd, current_nondefaults := cn\<rparr>"
  have frame1: "c' = c\<lparr>desired_nondefaults := desired_nondefaults c',
                         desired_defaults := desired_defaults c'\<rparr>"
    using ret by (rule identify_desired_objects_frame)
  have pass: "items_pass env c (set (desired_items c))"
    using ret fin by (rule identify_result_pass)
  from ret fin obtain pt where p: "privilege_types env c = Inr pt"
    and nd: "desired_nondefaults c' = wanted_objects env c (set (desired_items c)) \<times> set pt"
    and keys': "default_acl_possible c \<longrightarrow>
           wildcard_schemas c (set (desired_items c)) \<subseteq> fst ` set (schema_writers c)"
    and dd': "default_acl_possible c \<longrightarrow>
           desired_defaults c' = wanted_defaults c (set (desired_items c)) pt"
    by (rule identify_result_sets)
  have keys: "wildcard_schemas c (set (desired_items c)) \<subseteq> fst ` set (schema_writers c)"
    if "default_acl_possible c" using keys' that by (rule mp)
  have dd: "desired_defaults c' = wanted_defaults c (set (desired_items c)) pt"
    if "default_acl_possible c" using dd' that by (rule mp)
  have f_items: "set (desired_items c2) = set (desired_items c)"
    unfolding c2_def using items by simp
  have f_ps: "personal_schemas c2 = personal_schemas c" unfolding c2_def by simp
  have f_sw: "schema_writers c2 = schema_writers c" unfolding c2_def by simp
  have f_acl: "default_acl_possible c2 = default_acl_possible c" unfolding c2_def by simp
  have f_dd: "desired_defaults c2 = desired_defaults c" unfolding c2_def by simp
  have e_pass: "items_pass env c2 = items_pass env c"
    unfolding c2_def by (rule ext) (rule items_pass_upd)
  have e_ws: "wildcard_schemas c2 = wildcard_schemas c"
    unfolding c2_def by (rule ext) (rule wildcard_schemas_upd)
  have e_wo: "wanted_objects env c2 = wanted_objects env c"
    unfolding c2_def by (rule ext) (rule wanted_objects_upd)
  have e_wd: "wanted_defaults c2 = wanted_defaults c"
    unfolding c2_def by (intro ext) (rule wanted_defaults_upd)
  have p2: "privilege_types env c2 = Inr pt"
    unfolding c2_def privilege_types_upd by (rule p)
  have fin2: "finite (personal_schemas c2)" unfolding f_ps by (rule fin)
  have pass2: "items_pass env c2 (set (desired_items c2))"
    unfolding e_pass f_items by (rule pass)
  have keys2: "wildcard_schemas c2 (set (desired_items c2)) \<subseteq> fst ` set (schema_writers c2)"
    if "default_acl_possible c2"
    unfolding e_ws f_items f_sw using that unfolding f_acl by (rule keys)
  from identify_returns [OF pass2 p2 keys2 fin2]
  obtain c2' where ret2: "identify_desired_objects env c2 = Inr c2'" by blast
  have frame2: "c2' = c2\<lparr>desired_nondefaults := desired_nondefaults c2',
                         desired_defaults := desired_defaults c2'\<rparr>"
    using ret2 by (rule identify_desired_objects_frame)
  from ret2 fin2 obtain pt2 where p2': "privilege_types env c2 = Inr pt2"
    and nd2: "desired_nondefaults c2' = wanted_objects env c2 (set (desired_items c2)) \<times> set pt2"
    and k2': "default_acl_possible c2 \<longrightarrow>
           wildcard_schemas c2 (set (desired_items c2)) \<subseteq> fst ` set (schema_writers c2)"
    and dd2': "default_acl_possible c2 \<longrightarrow>
           desired_defaults c2' = wanted_defaults c2 (set (desired_items c2)) pt2"
    by (rule identify_result_sets)
  have dd2: "desired_defaults c2' = wanted_defaults c2 (set (desired_items c2)) pt2"
    if "default_acl_possible c2" using dd2' that by (rule mp)
  have pt2: "pt2 = pt" using p2 p2' by simp
  have nd_eq: "desired_nondefaults c2' = desired_nondefaults c'"
    unfolding nd2 nd e_wo f_items pt2 ..
  have dd_eq: "desired_defaults c2' = desired_defaults c'"
  proof (cases "default_acl_possible c")
    case True
    then have "default_acl_possible c2" unfolding f_acl .
    from dd2 [OF this] dd [OF True] show ?thesis unfolding e_wd f_items pt2 by simp
  next
    case False
    then have "\<not> default_acl_possible c2" unfolding f_acl .
    from identify_result_no_defaults [OF ret2 this] identify_result_no_defaults [OF ret False]
    show ?thesis unfolding f_dd by simp
  qed
  have "c2' = c2\<lparr>desired_nondefaults := desired_nondefaults c', desired_defaults := desired_defaults c'\<rparr>"
    using frame2 unfolding nd_eq dd_eq .
  also have "\<dots> = (c\<lparr>desired_nondefaults := desired_nondefaults c',
                       desired_defaults := desired_defaults c'\<rparr>)
                    \<lparr>desired_items := i, current_defaults := cd, current_nondefaults := cn\<rparr>"
    unfolding c2_def by simp
  also have "\<dots> = c'\<lparr>desired_items := i, current_defaults := cd, current_nondefaults := cn\<rparr>"
    using frame1 by simp
  finally show ?thesis using ret2 unfolding c2_def by simp
qed

section \<open>Applying the statements of one analyzer\<close>

lemma analyze_eq:
  assumes "identify_desired_objects env c = Inr c'"
  shows "analyze env c =
     Inr (sql_to_run c @
          difference_statements (object_kind c) (rolename c) (default_acl_possible c)
            (desired_nondefaults c') (current_nondefaults c)
            (desired_defaults c') (current_defaults c))"
proof -
  have frame: "c' = c\<lparr>desired_nondefaults := desired_nondefaults c',
                       desired_defaults := desired_defaults c'\<rparr>"
    using assms by (rule identify_desired_objects_frame)
  have fields: "sql_to_run c' = sql_to_run c" "rolename c' = rolename c"
    "object_kind c' = object_kind c" "current_nondefaults c' = current_nondefaults c"
    "current_defaults c' = current_defaults c"
    "default_acl_possible c' = default_acl_possible c"
    by (subst frame, simp)+
  show ?thesis
  proof (cases "default_acl_possible c")
    case True
    then have "analyze env c = Inr (sql_to_run (analyze_defaults (analyze_nondefaults c')))"
      using assms by (simp add: analyze_def Let_def analyze_nondefaults_eq fields)
    then show ?thesis
      using True
      by (simp add: analyze_nondefaults_eq analyze_defaults_eq fields difference_statements_def)
  next
    case False
    then have "analyze env c = Inr (sql_to_run (analyze_nondefaults c'))"
      using assms by (simp add: analyze_def Let_def analyze_nondefaults_eq fields)
    then show ?thesis
      using False
      by (simp add: analyze_nondefaults_eq fields difference_statements_def)
  qed
qed

lemma fold_apply_nondefault_grants:
  "fold apply_nondefault
     (map (\<lambda>(objname, pg_priv_kind). Q_GRANT_NONDEFAULT pg_priv_kind k objname r) xs) S
   = S \<union> set xs"
  by (induction xs arbitrary: S) auto

lemma fold_apply_nondefault_revokes:
  "fold apply_nondefault
     (map (\<lambda>(objname, pg_priv_kind). Q_REVOKE_NONDEFAULT pg_priv_kind k objname r) xs) S
   = S - set xs"
  by (induction xs arbitrary: S) auto

lemma fold_apply_nondefault_default_grants:
  "fold apply_nondefault
     (map (\<lambda>(grantor, schema, pg_priv_kind). Q_GRANT_DEFAULT grantor schema pg_priv_kind k r) xs) S
   = S"
  by (induction xs arbitrary: S) auto

lemma fold_apply_nondefault_default_revokes:
  "fold apply_nondefault
     (map (\<lambda>(grantor, schema, pg_priv_kind). Q_REVOKE_DEFAULT grantor schema pg_priv_kind k r) xs) S
   = S"
  by (induction xs arbitrary: S) auto

lemma fold_apply_default_grants:
  "fold apply_default
     (map (\<lambda>(grantor, schema, pg_priv_kind). Q_GRANT_DEFAULT grantor schema pg_priv_kind k r) xs) S
   = S \<union> set xs"
  by (induction xs arbitrary: S) auto

lemma fold_apply_default_revokes:
  "fold apply_default
     (map (\<lambda>(grantor, schema, pg_priv_kind). Q_REVOKE_DEFAULT grantor schema pg_priv_kind k r) xs) S
   = S - set xs"
  by (induction xs arbitrary: S) auto

lemma fold_apply_default_nondefault_grants:
  "fold apply_default
     (map (\<lambda>(objname, pg_priv_kind). Q_GRANT_NONDEFAULT pg_priv_kind k objname r) xs) S
   = S"
  by (induction xs arbitrary: S) auto

lemma fold_apply_default_nondefault_revokes:
  "fold apply_default
     (map (\<lambda>(objname, pg_priv_kind). Q_REVOKE_NONDEFAULT pg_priv_kind k objname r) xs) S
   = S"
  by (induction xs arbitrary: S) auto

lemma apply_nondefault_difference:
  assumes "finite nd" "finite cn"
  shows "fold apply_nondefault (difference_statements kind role acl nd cn dd cd) cn = nd"
proof -
  have 1: "set (sorted_list_of_set (nd - cn)) = nd - cn"
    "set (sorted_list_of_set (cn - nd)) = cn - nd"
    using assms by simp_all
  show ?thesis
    unfolding difference_statements_def
    by (cases acl)
       (auto simp: fold_apply_nondefault_grants fold_apply_nondefault_revokes
          fold_apply_nondefault_default_grants fold_apply_nondefault_default_revokes 1)
qed

lemma apply_default_difference:
  assumes "finite dd" "finite cd"
  shows "fold apply_default (difference_statements kind role acl nd cn dd cd) cd
         = (if acl then dd else cd)"
proof -
  have 1: "set (sorted_list_of_set (dd - cd)) = dd - cd"
    "set (sorted_list_of_set (cd - dd)) = cd - dd"
    using assms by simp_all
  show ?thesis
    unfolding difference_statements_def
    by (cases acl)
       (auto simp: fold_apply_default_grants fold_apply_default_revokes
          fold_apply_default_nondefault_grants fold_apply_default_nondefault_revokes 1)
qed

lemma difference_statements_none:
  "difference_statements kind role True nd nd dd dd = []"
  "difference_statements kind role False nd nd dd cd = []"
  by (simp_all add: difference_statements_def)

lemma finite_wildcard_schemas:
  "finite S \<Longrightarrow> finite (personal_schemas c) \<Longrightarrow> finite (wildcard_schemas c S)"
  unfolding wildcard_schemas_def by (auto intro: finite_item_schemas)

lemma finite_wanted_objects:
  "finite S \<Longrightarrow> finite (personal_schemas c) \<Longrightarrow> finite (wanted_objects env c S)"
  unfolding wanted_objects_def
  by (auto intro: finite_item_objects finite_get_schema_objects finite_wildcard_schemas)

lemma finite_dict_get:
  "\<forall>(k, vals) \<in> set d. finite vals \<Longrightarrow> finite (dict_get d k {})"
  by (auto simp: dict_get_def split: option.splits dest: map_of_SomeD)

lemma finite_wanted_defaults:
  assumes "finite S" "finite (personal_schemas c)"
    "\<forall>(schema, vals) \<in> set (schema_writers c). finite vals"
  shows "finite (wanted_defaults c S pt)"
  unfolding wanted_defaults_def
  using assms by (auto intro!: finite_wildcard_schemas finite_dict_get)

lemma analyze_InrD:
  assumes "analyze env c = Inr sql"
  obtains c' where "identify_desired_objects env c = Inr c'"
  using assms by (cases "identify_desired_objects env c") (simp_all add: analyze_def)

lemma analyze_same_items:
  assumes run: "analyze env c = Inr sql"
    and fin: "finite (personal_schemas c)"
    and items: "set i = set (desired_items c)"
  shows "analyze env (c\<lparr>desired_items := i\<rparr>) = Inr sql"
proof -
  from run obtain c' where ret: "identify_desired_objects env c = Inr c'"
    by (rule analyze_InrD)
  have c2: "c\<lparr>desired_items := i\<rparr> =
      c\<lparr>desired_items := i, current_defaults := current_defaults c,
        current_nondefaults := current_nondefaults c\<rparr>"
    by simp
  have "identify_desired_objects env (c\<lparr>desired_items := i\<rparr>) =
      Inr (c'\<lparr>desired_items := i, current_defaults := current_defaults c,
        current_nondefaults := current_nondefaults c\<rparr>)"
    by (subst c2) (rule identify_desired_objects_upd [OF ret fin items])
  from analyze_eq [OF this] analyze_eq [OF ret] run show ?thesis by simp
qed

lemma analyze_after_statements:
  assumes run: "analyze env c = Inr sql"
    and new: "sql_to_run c = []"
    and fin: "finite (personal_schemas c)"
    and finw: "\<forall>(schema, vals) \<in> set (schema_writers c). finite vals"
    and fincn: "finite (current_nondefaults c)"
    and fincd: "finite (current_defaults c)"
    and items: "set i = set (desired_items c)"
  shows "analyze env
           (c\<lparr>desired_items := i,
              current_defaults := fold apply_default sql (current_defaults c),
              current_nondefaults := fold apply_nondefault sql (current_nondefaults c)\<rparr>)
         = Inr []"
proof -
  from run obtain c' where ret: "identify_desired_objects env c = Inr c'"
    by (rule analyze_InrD)
  define nd where "nd = desired_nondefaults c'"
  define dd where "dd = desired_defaults c'"
  define acl where "acl = default_acl_possible c"
  have sql: "sql = difference_statements (object_kind c) (rolename c) acl
            nd (current_nondefaults c) dd (current_defaults c)"
    using analyze_eq [OF ret] run new unfolding nd_def dd_def acl_def by simp
  from ret fin obtain pt where
    nd_eq: "desired_nondefaults c' = wanted_objects env c (set (desired_items c)) \<times> set pt"
    and dd_eq: "default_acl_possible c \<longrightarrow>
           desired_defaults c' = wanted_defaults c (set (desired_items c)) pt"
    by (rule identify_result_sets)
  have fin_nd: "finite nd"
    unfolding nd_def nd_eq using fin by (simp add: finite_wanted_objects)
  have fin_dd: "acl \<Longrightarrow> finite dd"
    unfolding dd_def acl_def using dd_eq fin finw by (simp add: finite_wanted_defaults)
  have cn2: "fold apply_nondefault sql (current_nondefaults c) = nd"
    unfolding sql using fin_nd fincn by (rule apply_nondefault_difference)
  have cd2: "fold apply_default sql (current_defaults c) = (if acl then dd else current_defaults c)"
  proof (cases acl)
    case True
    then show ?thesis
      unfolding sql using apply_default_difference [OF fin_dd [OF True] fincd] by simp
  next
    case False
    then show ?thesis
      unfolding sql difference_statements_def
      by (simp add: fold_apply_default_nondefault_grants fold_apply_default_nondefault_revokes)
  qed
  define c2 where "c2 = c\<lparr>desired_items := i,
              current_defaults := fold apply_default sql (current_defaults c),
              current_nondefaults := fold apply_nondefault sql (current_nondefaults c)\<rparr>"
  have ret2: "identify_desired_objects env c2 =
      Inr (c'\<lparr>desired_items := i,
              current_defaults := fold apply_default sql (current_defaults c),
              current_nondefaults := fold apply_nondefault sql (current_nondefaults c)\<rparr>)"
    unfolding c2_def by (rule identify_desired_objects_upd [OF ret fin items])
  have f: "sql_to_run c2 = []" "object_kind c2 = object_kind c" "rolename c2 = rolename c"
    "default_acl_possible c2 = acl" "current_nondefaults c2 = nd"
    "current_defaults c2 = (if acl then dd else current_defaults c)"
    unfolding c2_def acl_def using new cn2 cd2 by (simp_all add: acl_def)
  have "analyze env c2 = Inr (difference_statements (object_kind c) (rolename c) acl
            nd nd dd (if acl then dd else current_defaults c))"
    using analyze_eq [OF ret2] unfolding f nd_def dd_def by simp
  also have "\<dots> = Inr []"
    by (cases acl) (simp_all add: difference_statements_none)
  finally show ?thesis unfolding c2_def .
qed

section \<open>A second run on the snapshot after the statements\<close>

lemma same_items_refl: "same_items d d"
  by (simp add: same_items_def)

lemma same_items_trans: "same_items d d' \<Longrightarrow> same_items d' d'' \<Longrightarrow> same_items d d''"
  unfolding same_items_def by (elim conjE) simp

lemma same_items_get_desired_items: "same_items d (snd (get_desired_items a d))"
proof (cases "a = ''read''")
  case False
  then show ?thesis by (simp add: get_desired_items_def same_items_refl)
next
  case True
  show ?thesis
  proof (cases "map_of d ''read''")
    case None
    then show ?thesis using True by (simp add: get_desired_items_def same_items_refl)
  next
    case (Some l)
    then have "snd (get_desired_items a d) = AList.update ''read'' (l @ dict_get d ''write'' []) d"
      using True by (simp add: get_desired_items_def Let_def)
    moreover have "dict_get d ''read'' [] = l" using Some by (simp add: dict_get_def)
    ultimately show ?thesis
      by (simp add: same_items_def dict_get_update_same dict_get_update_other)
  qed
qed

lemma same_items_desired:
  assumes "same_items d d'" "a = ''read'' \<or> a = ''write''"
  shows "set (fst (get_desired_items a d')) = set (fst (get_desired_items a d))"
  using assms(2)
proof
  assume "a = ''read''"
  then show ?thesis
    using assms(1) unfolding same_items_def by (elim conjE) (simp add: get_desired_items_read)
next
  assume "a = ''write''"
  then show ?thesis
    using assms(1) unfolding same_items_def by (elim conjE) (simp add: get_desired_items_write)
qed

lemma nonempty_guard: "(if xs \<noteq> [] then set (map f xs) else {}) = set (map f xs)"
  by simp

lemma new_PrivilegeAnalyzer_fields:
  assumes "new_PrivilegeAnalyzer env r a k items sw ps db = Inr c"
  shows "sql_to_run c = []" "desired_items c = items" "schema_writers c = sw"
    "personal_schemas c = ps"
    "current_defaults c = set (get_role_current_defaults db r k a)"
    "current_nondefaults c =
       set (map (\<lambda>(dbo, priv). (qualified_name env dbo, priv)) (get_role_current_nondefaults db r k a))"
  using assms
  by (auto simp: new_PrivilegeAnalyzer_def Let_def nonempty_guard split: sum.splits
        simp del: set_map)

lemma new_PrivilegeAnalyzer_other:
  assumes "new_PrivilegeAnalyzer env r a k items sw ps db = Inr c"
    and "get_all_object_attributes db' = get_all_object_attributes db"
  shows "new_PrivilegeAnalyzer env r a k items' sw ps db' =
     Inr (c\<lparr>desired_items := items',
            current_defaults := set (get_role_current_defaults db' r k a),
            current_nondefaults :=
              set (map (\<lambda>(dbo, priv). (qualified_name env dbo, priv))
                     (get_role_current_nondefaults db' r k a))\<rparr>)"
  using assms
  by (auto simp: new_PrivilegeAnalyzer_def Let_def nonempty_guard split: sum.splits
        simp del: set_map)

lemma new_PrivilegeAnalyzer_items':
  assumes "new_PrivilegeAnalyzer env r a k items sw ps db = Inr c"
  shows "new_PrivilegeAnalyzer env r a k items' sw ps db = Inr (c\<lparr>desired_items := items'\<rparr>)"
  using assms by (auto simp: new_PrivilegeAnalyzer_def Let_def split: sum.splits)

lemma analyzer_ranD:
  assumes "analyzer_ran env db sw ps r k a d"
  obtains c sql where
    "new_PrivilegeAnalyzer env r a k (fst (get_desired_items a d)) sw ps db = Inr c"
    and "analyze env c = Inr sql"
    and "role_sql_to_run env db sw ps r k a d = sql"
proof (cases "new_PrivilegeAnalyzer env r a k (fst (get_desired_items a d)) sw ps db")
  case (Inl e)
  then show ?thesis using assms by (simp add: analyzer_ran_def)
next
  case c: (Inr c)
  show ?thesis
  proof (cases "analyze env c")
    case (Inl e)
    then show ?thesis using assms c by (simp add: analyzer_ran_def)
  next
    case (Inr sql)
    show ?thesis
      by (rule that [OF c Inr]) (simp add: role_sql_to_run_def c Inr)
  qed
qed

lemma analyzer_ranI:
  assumes "new_PrivilegeAnalyzer env r a k (fst (get_desired_items a d)) sw ps db = Inr c"
    and "analyze env c = Inr sql"
  shows "analyzer_ran env db sw ps r k a d"
  using assms by (simp add: analyzer_ran_def)

lemma analyzer_ran_same_items:
  assumes ran: "analyzer_ran env db sw ps r k a d"
    and same: "same_items d d'"
    and a: "a = ''read'' \<or> a = ''write''"
    and fin: "finite ps"
  shows "analyzer_ran env db sw ps r k a d'"
    and "role_sql_to_run env db sw ps r k a d' = role_sql_to_run env db sw ps r k a d"
proof -
  from ran obtain c sql where
    c: "new_PrivilegeAnalyzer env r a k (fst (get_desired_items a d)) sw ps db = Inr c"
    and run: "analyze env c = Inr sql"
    and sql: "role_sql_to_run env db sw ps r k a d = sql"
    by (rule analyzer_ranD)
  let ?i = "fst (get_desired_items a d')"
  have c': "new_PrivilegeAnalyzer env r a k ?i sw ps db = Inr (c\<lparr>desired_items := ?i\<rparr>)"
    using c by (rule new_PrivilegeAnalyzer_items')
  have "set ?i = set (desired_items c)"
    using same_items_desired [OF same a] new_PrivilegeAnalyzer_fields(2) [OF c] by simp
  moreover have "finite (personal_schemas c)"
    using new_PrivilegeAnalyzer_fields(4) [OF c] fin by simp
  ultimately have run': "analyze env (c\<lparr>desired_items := ?i\<rparr>) = Inr sql"
    using analyze_same_items [OF run] by blast
  show "analyzer_ran env db sw ps r k a d'" using c' run' by (rule analyzer_ranI)
  show "role_sql_to_run env db sw ps r k a d' = role_sql_to_run env db sw ps r k a d"
    unfolding sql by (simp add: role_sql_to_run_def c' run')
qed

lemma analyze_access_first:
  assumes "analyze_access env db sw ps r k a (d, sql) = Inr (d', sql')"
  shows "analyzer_ran env db sw ps r k a d \<and> d' = snd (get_desired_items a d)"
proof -
  obtain items d1 where g: "get_desired_items a d = (items, d1)"
    by (cases "get_desired_items a d")
  show ?thesis
  proof (cases "new_PrivilegeAnalyzer env r a k items sw ps db")
    case (Inl e)
    then show ?thesis using assms g by (simp add: analyze_access_def)
  next
    case c: (Inr c)
    show ?thesis
    proof (cases "analyze env c")
      case (Inl e)
      then show ?thesis using assms g c by (simp add: analyze_access_def)
    next
      case (Inr s)
      then show ?thesis using assms g c by (simp add: analyze_access_def analyzer_ran_def)
    qed
  qed
qed

lemma analyze_access_second:
  assumes ran: "analyzer_ran env db sw ps r k a d0"
    and after: "sets_after env db sw ps db' r k a d0"
    and attrs: "get_all_object_attributes db' = get_all_object_attributes db"
    and same: "same_items d0 d2"
    and a: "a = ''read'' \<or> a = ''write''"
    and fin: "finite ps"
    and finw: "\<forall>(schema, vals) \<in> set sw. finite vals"
  shows "analyze_access env db' sw ps r k a (d2, sql) = Inr (snd (get_desired_items a d2), sql)"
proof -
  from ran obtain c sql1 where
    c: "new_PrivilegeAnalyzer env r a k (fst (get_desired_items a d0)) sw ps db = Inr c"
    and run: "analyze env c = Inr sql1"
    and sql1: "role_sql_to_run env db sw ps r k a d0 = sql1"
    by (rule analyzer_ranD)
  note f = new_PrivilegeAnalyzer_fields [OF c]
  let ?i = "fst (get_desired_items a d2)"
  have cd: "set (get_role_current_defaults db' r k a) = fold apply_default sql1 (current_defaults c)"
    and cn: "set (map (\<lambda>(dbo, priv). (qualified_name env dbo, priv))
                (get_role_current_nondefaults db' r k a))
             = fold apply_nondefault sql1 (current_nondefaults c)"
    using after unfolding sets_after_def sql1 f(5,6) by simp_all
  have c2: "new_PrivilegeAnalyzer env r a k ?i sw ps db' =
      Inr (c\<lparr>desired_items := ?i,
            current_defaults := fold apply_default sql1 (current_defaults c),
            current_nondefaults := fold apply_nondefault sql1 (current_nondefaults c)\<rparr>)"
    using new_PrivilegeAnalyzer_other [OF c attrs, of ?i] unfolding cd cn .
  have items: "set ?i = set (desired_items c)"
    using same_items_desired [OF same a] f(2) by simp
  have "analyze env (c\<lparr>desired_items := ?i,
            current_defaults := fold apply_default sql1 (current_defaults c),
            current_nondefaults := fold apply_nondefault sql1 (current_nondefaults c)\<rparr>) = Inr []"
  proof (rule analyze_after_statements [OF run f(1) _ _ _ _ items])
    show "finite (personal_schemas c)" unfolding f(4) by (rule fin)
    show "\<forall>(schema, vals) \<in> set (schema_writers c). finite vals" unfolding f(3) by (rule finw)
    show "finite (current_nondefaults c)" unfolding f(6) by simp
    show "finite (current_defaults c)" unfolding f(5) by simp
  qed
  then show ?thesis
    using c2 by (cases "get_desired_items a d2") (simp add: analyze_access_def)
qed

lemma same_items_sym: "same_items d d' \<Longrightarrow> same_items d' d"
  unfolding same_items_def by (elim conjE) simp

lemma same_privileges_refl: "same_privileges p p"
  by (simp add: same_privileges_def same_items_refl)

lemma same_privileges_update:
  assumes "same_privileges privs0 privs1" "same_items (dict_get privs1 k []) d'"
  shows "same_privileges privs0
           (case map_of privs1 k of None \<Rightarrow> privs1 | Some d \<Rightarrow> AList.update k d' privs1)"
proof (cases "map_of privs1 k")
  case None
  then show ?thesis using assms(1) by simp
next
  case (Some d)
  have "same_items (dict_get privs0 k' []) (dict_get (AList.update k d' privs1) k' [])" for k'
  proof (cases "k' = k")
    case True
    have "same_items (dict_get privs0 k []) (dict_get privs1 k [])"
      using assms(1) by (simp add: same_privileges_def)
    from same_items_trans [OF this assms(2)] show ?thesis
      using True by (simp add: dict_get_update_same)
  next
    case False
    then show ?thesis using assms(1) by (simp add: dict_get_update_other same_privileges_def)
  qed
  then show ?thesis using Some by (simp add: same_privileges_def)
qed

lemma access_loop_first:
  assumes "for_each_raise (analyze_access env db sw ps r k) [''read'', ''write''] (d, sql)
            = Inr (d', sql')"
  shows "analyzer_ran env db sw ps r k ''read'' d"
    and "analyzer_ran env db sw ps r k ''write'' (snd (get_desired_items ''read'' d))"
    and "same_items d d'"
proof -
  from assms obtain d1 s1 where
    1: "analyze_access env db sw ps r k ''read'' (d, sql) = Inr (d1, s1)"
    and 2: "analyze_access env db sw ps r k ''write'' (d1, s1) = Inr (d', sql')"
    by (auto split: sum.splits)
  from analyze_access_first [OF 1] have r: "analyzer_ran env db sw ps r k ''read'' d"
    and d1: "d1 = snd (get_desired_items ''read'' d)" by simp_all
  from analyze_access_first [OF 2] have w: "analyzer_ran env db sw ps r k ''write'' d1"
    and d': "d' = snd (get_desired_items ''write'' d1)" by simp_all
  show "analyzer_ran env db sw ps r k ''read'' d" by (rule r)
  show "analyzer_ran env db sw ps r k ''write'' (snd (get_desired_items ''read'' d))"
    using w unfolding d1 .
  have "same_items d d1" unfolding d1 by (rule same_items_get_desired_items)
  moreover have "same_items d1 d'" unfolding d' by (rule same_items_get_desired_items)
  ultimately show "same_items d d'" by (rule same_items_trans)
qed

lemma access_loop_second:
  assumes ran: "analyzer_ran env db sw ps r k ''read'' d0" "analyzer_ran env db sw ps r k ''write'' d0"
    and after: "sets_after env db sw ps db' r k ''read'' d0"
      "sets_after env db sw ps db' r k ''write'' d0"
    and attrs: "get_all_object_attributes db' = get_all_object_attributes db"
    and same: "same_items d0 d2"
    and fin: "finite ps"
    and finw: "\<forall>(schema, vals) \<in> set sw. finite vals"
  shows "\<exists>d2'. for_each_raise (analyze_access env db' sw ps r k) [''read'', ''write''] (d2, sql)
            = Inr (d2', sql) \<and> same_items d0 d2'"
proof -
  let ?d1 = "snd (get_desired_items ''read'' d2)"
  let ?d2 = "snd (get_desired_items ''write'' ?d1)"
  have 1: "analyze_access env db' sw ps r k ''read'' (d2, sql) = Inr (?d1, sql)"
    by (rule analyze_access_second [OF ran(1) after(1) attrs same _ fin finw]) simp
  have s1: "same_items d0 ?d1"
    using same same_items_get_desired_items by (rule same_items_trans)
  have 2: "analyze_access env db' sw ps r k ''write'' (?d1, sql) = Inr (?d2, sql)"
    by (rule analyze_access_second [OF ran(2) after(2) attrs s1 _ fin finw]) simp
  have s2: "same_items d0 ?d2"
    using s1 same_items_get_desired_items by (rule same_items_trans)
  have "for_each_raise (analyze_access env db' sw ps r k) [''read'', ''write''] (d2, sql)
            = Inr (?d2, sql)"
    using 1 2 by simp
  with s2 show ?thesis by blast
qed

lemma kind_first:
  assumes run: "analyze_object_kind env db sw ps r k (privs1, sql) = Inr (privs1', sql')"
    and same: "same_privileges privs0 privs1"
    and fin: "finite ps"
  shows "same_privileges privs0 privs1'"
    and "analyzer_ran env db sw ps r k ''read'' (dict_get privs0 k [])"
    and "analyzer_ran env db sw ps r k ''write'' (dict_get privs0 k [])"
proof -
  let ?d1 = "dict_get privs1 k []"
  from run obtain d' where
    loop: "for_each_raise (analyze_access env db sw ps r k) [''read'', ''write''] (?d1, sql)
            = Inr (d', sql')"
    and p': "privs1' = (case map_of privs1 k of None \<Rightarrow> privs1
                        | Some d \<Rightarrow> AList.update k d' privs1)"
    by (auto simp: analyze_object_kind_def split: sum.splits)
  note l = access_loop_first [OF loop]
  show "same_privileges privs0 privs1'"
    unfolding p' using same l(3) by (rule same_privileges_update)
  have s01: "same_items (dict_get privs0 k []) ?d1"
    using same by (simp add: same_privileges_def)
  then have s10: "same_items ?d1 (dict_get privs0 k [])" by (rule same_items_sym)
  show "analyzer_ran env db sw ps r k ''read'' (dict_get privs0 k [])"
    by (rule analyzer_ran_same_items(1) [OF l(1) s10 _ fin]) simp
  have "same_items (snd (get_desired_items ''read'' ?d1)) ?d1"
    using same_items_get_desired_items by (rule same_items_sym)
  then have "same_items (snd (get_desired_items ''read'' ?d1)) (dict_get privs0 k [])"
    using s10 by (rule same_items_trans)
  then show "analyzer_ran env db sw ps r k ''write'' (dict_get privs0 k [])"
    by (rule analyzer_ran_same_items(1) [OF l(2) _ _ fin]) simp
qed

lemma kind_second:
  assumes ran: "analyzer_ran env db sw ps r k ''read'' (dict_get privs0 k [])"
      "analyzer_ran env db sw ps r k ''write'' (dict_get privs0 k [])"
    and after: "sets_after env db sw ps db' r k ''read'' (dict_get privs0 k [])"
      "sets_after env db sw ps db' r k ''write'' (dict_get privs0 k [])"
    and attrs: "get_all_object_attributes db' = get_all_object_attributes db"
    and same: "same_privileges privs0 privs2"
    and fin: "finite ps"
    and finw: "\<forall>(schema, vals) \<in> set sw. finite vals"
  shows "\<exists>privs2'. analyze_object_kind env db' sw ps r k (privs2, sql) = Inr (privs2', sql)
            \<and> same_privileges privs0 privs2'"
proof -
  have s: "same_items (dict_get privs0 k []) (dict_get privs2 k [])"
    using same by (simp add: same_privileges_def)
  from access_loop_second [OF ran after attrs s fin finw, of sql]
  obtain d2' where
    loop: "for_each_raise (analyze_access env db' sw ps r k) [''read'', ''write'']
            (dict_get privs2 k [], sql) = Inr (d2', sql)"
    and s': "same_items (dict_get privs0 k []) d2'"
    by blast
  have "same_items (dict_get privs2 k []) d2'"
    using same_items_sym [OF s] s' by (rule same_items_trans)
  with same have "same_privileges privs0
           (case map_of privs2 k of None \<Rightarrow> privs2 | Some d \<Rightarrow> AList.update k d2' privs2)"
    by (rule same_privileges_update)
  then show ?thesis using loop by (simp add: analyze_object_kind_def)
qed

lemma kinds_first:
  assumes "for_each_raise (analyze_object_kind env db sw ps r) kinds (privs1, sql) = Inr (privs1', sql')"
    and "same_privileges privs0 privs1"
    and fin: "finite ps"
  shows "same_privileges privs0 privs1' \<and>
         (\<forall>k \<in> set kinds. analyzer_ran env db sw ps r k ''read'' (dict_get privs0 k []) \<and>
                          analyzer_ran env db sw ps r k ''write'' (dict_get privs0 k []))"
  using assms(1,2)
proof (induction kinds arbitrary: privs1 sql)
  case Nil
  then show ?case by simp
next
  case (Cons k kinds)
  from Cons.prems(1) obtain p1 s1 where
    1: "analyze_object_kind env db sw ps r k (privs1, sql) = Inr (p1, s1)"
    and 2: "for_each_raise (analyze_object_kind env db sw ps r) kinds (p1, s1) = Inr (privs1', sql')"
    by (auto split: sum.splits)
  note k = kind_first [OF 1 Cons.prems(2) fin]
  from Cons.IH [OF 2 k(1)] k(2,3) show ?case by simp
qed

lemma kinds_second:
  assumes "\<forall>k \<in> set kinds.
        analyzer_ran env db sw ps r k ''read'' (dict_get privs0 k []) \<and>
        analyzer_ran env db sw ps r k ''write'' (dict_get privs0 k []) \<and>
        sets_after env db sw ps db' r k ''read'' (dict_get privs0 k []) \<and>
        sets_after env db sw ps db' r k ''write'' (dict_get privs0 k [])"
    and "same_privileges privs0 privs2"
    and attrs: "get_all_object_attributes db' = get_all_object_attributes db"
    and fin: "finite ps"
    and finw: "\<forall>(schema, vals) \<in> set sw. finite vals"
  shows "\<exists>privs2'. for_each_raise (analyze_object_kind env db' sw ps r) kinds (privs2, sql)
            = Inr (privs2', sql) \<and> same_privileges privs0 privs2'"
  using assms(1,2)
proof (induction kinds arbitrary: privs2)
  case Nil
  then show ?case by simp
next
  case (Cons k kinds)
  have k: "analyzer_ran env db sw ps r k ''read'' (dict_get privs0 k [])"
    "analyzer_ran env db sw ps r k ''write'' (dict_get privs0 k [])"
    "sets_after env db sw ps db' r k ''read'' (dict_get privs0 k [])"
    "sets_after env db sw ps db' r k ''write'' (dict_get privs0 k [])"
    using Cons.prems(1) by simp_all
  from kind_second [OF k attrs Cons.prems(2) fin finw, of sql]
  obtain p1 where 1: "analyze_object_kind env db' sw ps r k (privs2, sql) = Inr (p1, sql)"
    and s1: "same_privileges privs0 p1" by blast
  have rest: "\<forall>k \<in> set kinds.
        analyzer_ran env db sw ps r k ''read'' (dict_get privs0 k []) \<and>
        analyzer_ran env db sw ps r k ''write'' (dict_get privs0 k []) \<and>
        sets_after env db sw ps db' r k ''read'' (dict_get privs0 k []) \<and>
        sets_after env db sw ps db' r k ''write'' (dict_get privs0 k [])"
    using Cons.prems(1) by simp
  from Cons.IH [OF rest s1] 1 show ?case by simp
qed

end
